theory Spec2Isabelle
  imports Main
begin

section \<open>Strings\<close>

text \<open>
  A Python \<open>str\<close> is a sequence of Unicode code points. Text that users supply (email
  addresses, subjects, bodies, the comma-separated text fields) is modelled as a list of
  code points, so that \<open>str.strip\<close> and \<open>str.split\<close> see the characters Python sees.
  Fixed ASCII literals of the source (type tags, status names, error messages) are HOL
  strings; \<open>ascii\<close> turns such a literal into a Python string.
\<close>

type_synonym pystr = "nat list"

definition ascii :: "string \<Rightarrow> pystr" where
  "ascii s = map of_char s"

text \<open>Python's \<open>needle in haystack\<close> on strings: the needle occurs as a contiguous run.\<close>

fun py_in :: "'a list \<Rightarrow> 'a list \<Rightarrow> bool" where
  "py_in s [] = (s = [])"
| "py_in s (c # cs) = (take (length s) (c # cs) = s \<or> py_in s cs)"

section \<open>Survey module: conditions between questions\<close>

text \<open>
  \<open>surveys/tests_conditional.py\<close> creates questions with a survey, a type and an order,
  and conditions that link a trigger question to a dependent question.
\<close>

record Question =
  q_id :: nat
  q_survey :: nat
  q_type :: string
  q_order :: int

record QuestionCondition =
  trigger_question :: Question
  trigger_answer_value :: pystr
  dependent_question :: Question

datatype save_error = ValidationError "string list" | IntegrityError

text \<open>
  Modelled from the spec: \<open>QuestionCondition.clean\<close> and \<open>QuestionCondition.save\<close> live in
  \<open>surveys/models.py\<close>, which is not among the sources; only the tests that call them are.
  The spec gives three rules (trigger type, same survey, trigger before dependent) and
  the text the ValidationError carries for each. It states every rule on its own, for
  every condition, so each violated rule contributes its message, in the order type,
  survey, order. The message of the same-survey rule is known only by the fragment the
  spec quotes.
\<close>

definition clean :: "QuestionCondition \<Rightarrow> string list" where
  "clean c =
     (if q_type (trigger_question c) = ''yes_no'' \<or> q_type (trigger_question c) = ''single_choice''
      then [] else [''Only yes/no and single choice questions can be triggers''])
     @ (if q_survey (trigger_question c) = q_survey (dependent_question c)
        then [] else [''must be in the same survey''])
     @ (if q_order (trigger_question c) < q_order (dependent_question c)
        then [] else [''Trigger question must appear before the dependent question''])"

text \<open>
  Modelled from the spec: \<open>save\<close> validates first and raises the ValidationError when a
  rule is violated; otherwise the row is inserted. \<open>test_unique_constraint\<close> expects the
  database to refuse a second condition with the same trigger, answer and dependent
  question with an IntegrityError.
\<close>

definition same_condition :: "QuestionCondition \<Rightarrow> QuestionCondition \<Rightarrow> bool" where
  "same_condition c d =
     (q_id (trigger_question c) = q_id (trigger_question d)
      \<and> trigger_answer_value c = trigger_answer_value d
      \<and> q_id (dependent_question c) = q_id (dependent_question d))"

definition save :: "QuestionCondition \<Rightarrow> QuestionCondition list \<Rightarrow> save_error + QuestionCondition list" where
  "save c table =
     (case clean c of
        [] \<Rightarrow> if list_ex (same_condition c) table then Inl IntegrityError else Inr (table @ [c])
      | e # es \<Rightarrow> Inl (ValidationError (e # es)))"

text \<open>\<open>assertIn(text, str(context.exception))\<close>: the error is a ValidationError and one of
  its messages contains the text.\<close>

fun raises_containing :: "string \<Rightarrow> save_error + 'a \<Rightarrow> bool" where
  "raises_containing s (Inl (ValidationError ms)) = list_ex (py_in s) ms"
| "raises_containing s (Inl IntegrityError) = False"
| "raises_containing s (Inr _) = False"

text \<open>The questions of the tests' \<open>setUp\<close>: a yes/no question at order 1 and a text
  question at order 2, both in survey 1.\<close>

definition setup_trigger_question :: Question where
  "setup_trigger_question = \<lparr>q_id = 1, q_survey = 1, q_type = ''yes_no'', q_order = 1\<rparr>"

definition setup_dependent_question :: Question where
  "setup_dependent_question = \<lparr>q_id = 2, q_survey = 1, q_type = ''text'', q_order = 2\<rparr>"

definition condition :: "Question \<Rightarrow> Question \<Rightarrow> QuestionCondition" where
  "condition t d =
     \<lparr>trigger_question = t, trigger_answer_value = ascii ''Yes'', dependent_question = d\<rparr>"

section \<open>Email module: the data model\<close>

type_synonym timestamp = int

record EmailRecipientView =
  view_id :: nat
  email_log :: nat
  recipient_user :: nat
  is_to :: bool
  is_read :: bool
  read_at :: "timestamp option"
  is_starred :: bool
  is_archived :: bool

text \<open>What the database layer raises: a statement the database refuses, or any statement
  issued in a transaction that an earlier error has marked for rollback.\<close>

datatype db_error = DatabaseError string | TransactionManagementError




section \<open>Python's string operations\<close>

text \<open>\<open>str.isspace\<close> of one character: the code points Python 3 counts as whitespace.\<close>

definition isspace :: "nat \<Rightarrow> bool" where
  "isspace c =
     ((9 \<le> c \<and> c \<le> 13) \<or> (28 \<le> c \<and> c \<le> 32) \<or> c = 133 \<or> c = 160 \<or> c = 5760
      \<or> (8192 \<le> c \<and> c \<le> 8202) \<or> c = 8232 \<or> c = 8233 \<or> c = 8239 \<or> c = 8287
      \<or> c = 12288)"

text \<open>\<open>s.strip()\<close>: whitespace removed from both ends.\<close>

definition py_strip :: "pystr \<Rightarrow> pystr" where
  "py_strip s = rev (dropWhile isspace (rev (dropWhile isspace s)))"

text \<open>\<open>s.split(sep)\<close> for a separator of one character: one piece more than there are
  separators, so the empty string gives one empty piece.\<close>

fun py_split :: "nat \<Rightarrow> pystr \<Rightarrow> pystr list" where
  "py_split sep [] = [[]]"
| "py_split sep (c # cs) =
     (if c = sep then [] # py_split sep cs
      else (case py_split sep cs of
              [] \<Rightarrow> [[c]]
            | p # ps \<Rightarrow> (c # p) # ps))"

text \<open>\<open>sep.join(xs)\<close>.\<close>

fun py_join :: "pystr \<Rightarrow> pystr list \<Rightarrow> pystr" where
  "py_join sep [] = []"
| "py_join sep [x] = x"
| "py_join sep (x # y # ys) = x @ sep @ py_join sep (y # ys)"

text \<open>\<open>str(n)\<close> for an integer: decimal digits, with a minus sign when negative. (The
  limit recent Python versions put on the number of digits is not modelled: ids are
  database keys.)\<close>

fun digits :: "nat \<Rightarrow> pystr" where
  "digits n = (if n < 10 then [48 + n] else digits (n div 10) @ [48 + n mod 10])"

declare digits.simps [simp del]

definition py_str :: "int \<Rightarrow> pystr" where
  "py_str i = (if i < 0 then 45 # digits (nat (- i)) else digits (nat i))"

text \<open>
  \<open>int(s)\<close> in base ten: surrounding whitespace is dropped, a sign may come first, then
  decimal digits, where single underscores may stand between digits; anything else
  raises ValueError. Python reads the decimal digits of every script: each script's
  digits are ten consecutive code points, listed here by their zero (Unicode 14).
\<close>

datatype py_error = ValueError

definition digit_zeros :: "nat list" where
  "digit_zeros =
     [48, 1632, 1776, 1984, 2406, 2534, 2662, 2790, 2918, 3046, 3174, 3302, 3430, 3558,
      3664, 3792, 3872, 4160, 4240, 6112, 6160, 6470, 6608, 6784, 6800, 6992, 7088, 7232,
      7248, 42528, 43216, 43264, 43472, 43504, 43600, 44016, 65296, 66720, 68912, 69734,
      69872, 69942, 70096, 70384, 70736, 70864, 71248, 71360, 71472, 71904, 72016, 72784,
      73040, 73120, 92768, 92864, 93008, 120782, 120792, 120802, 120812, 120822, 123200,
      123632, 125264, 130032]"

definition digit_zero :: "nat \<Rightarrow> nat option" where
  "digit_zero c = find (\<lambda>z. z \<le> c \<and> c < z + 10) digit_zeros"

definition isdigit :: "nat \<Rightarrow> bool" where
  "isdigit c = (digit_zero c \<noteq> None)"

definition digit_value :: "nat \<Rightarrow> nat" where
  "digit_value c = (case digit_zero c of None \<Rightarrow> 0 | Some z \<Rightarrow> c - z)"

fun digits_value :: "nat \<Rightarrow> pystr \<Rightarrow> nat" where
  "digits_value acc [] = acc"
| "digits_value acc (c # cs) = digits_value (acc * 10 + digit_value c) cs"

fun int_body :: "pystr \<Rightarrow> bool" where
  "int_body [] = False"
| "int_body [c] = isdigit c"
| "int_body (c # d # cs) =
     (isdigit c \<and> (if d = 95 then int_body cs else int_body (d # cs)))"

definition py_int :: "pystr \<Rightarrow> py_error + int" where
  "py_int s =
     (let t = py_strip s;
          neg = (t \<noteq> [] \<and> hd t = 45);
          body = (if t \<noteq> [] \<and> (hd t = 45 \<or> hd t = 43) then tl t else t)
      in if int_body body
         then Inr ((if neg then - 1 else 1) * int (digits_value 0 (filter isdigit body)))
         else Inl ValueError)"

section \<open>Email module: the comma-separated text fields\<close>

record EmailDraft =
  draft_id :: int
  draft_user :: nat
  cost_center_ids :: "pystr option"
  is_deleted :: bool

text \<open>The list comprehension \<open>[int(id.strip()) for id in ... if id.strip()]\<close>: the first
  piece that is no integer raises.\<close>

fun ints :: "pystr list \<Rightarrow> py_error + int list" where
  "ints [] = Inr []"
| "ints (p # ps) =
     (if py_strip p \<noteq> []
      then (case py_int (py_strip p) of
              Inl e \<Rightarrow> Inl e
            | Inr i \<Rightarrow> (case ints ps of Inl e \<Rightarrow> Inl e | Inr js \<Rightarrow> Inr (i # js)))
      else ints ps)"

definition get_cost_center_list :: "EmailDraft \<Rightarrow> py_error + int list" where
  "get_cost_center_list self =
     (case cost_center_ids self of
        None \<Rightarrow> Inr []
      | Some s \<Rightarrow> if s = [] then Inr [] else ints (py_split 44 s))"

definition set_cost_center_list :: "int list \<Rightarrow> EmailDraft \<Rightarrow> EmailDraft" where
  "set_cost_center_list ids self = self\<lparr>cost_center_ids := Some (py_join [44] (map py_str ids))\<rparr>"

record EmailLog =
  log_id :: nat
  log_user :: "nat option"
  log_cost_center :: "int option"
  log_template :: "int option"
  log_draft :: "int option"
  log_send_type :: string
  log_email_type :: string
  log_subject :: pystr
  log_body_html :: pystr
  log_recipient_emails :: pystr
  log_cc_emails :: "pystr option"
  log_email_status :: string
  log_email_error :: "string option"

definition get_recipient_list :: "EmailLog \<Rightarrow> pystr list" where
  "get_recipient_list self =
     (if log_recipient_emails self = [] then []
      else filter (\<lambda>e. e \<noteq> []) (map py_strip (py_split 44 (log_recipient_emails self))))"

definition set_recipient_list :: "pystr list \<Rightarrow> EmailLog \<Rightarrow> EmailLog" where
  "set_recipient_list emails self = self\<lparr>log_recipient_emails := py_join [44] emails\<rparr>"

text \<open>A log row for the examples below.\<close>

definition example_log :: EmailLog where
  "example_log = \<lparr>log_id = 1, log_user = Some 1, log_cost_center = None, log_template = None,
     log_draft = None, log_send_type = ''SPECIFIC'', log_email_type = ''SENT'',
     log_subject = ascii ''Subject'', log_body_html = ascii ''Body'', log_recipient_emails = [],
     log_cc_emails = None, log_email_status = ''SUCCESS'', log_email_error = None\<rparr>"

definition example_draft :: EmailDraft where
  "example_draft = \<lparr>draft_id = 1, draft_user = 1, cost_center_ids = None, is_deleted = False\<rparr>"

section \<open>Email module: the database and the mail backend\<close>

text \<open>
  The tables the email service reads and writes. Each table is the list of its rows in
  the order a query returns them (\<open>Meta.ordering\<close>); \<open>filter\<close> keeps that order. Only the
  columns the service reads or sets are kept.
\<close>

record CostCenter =
  cc_id :: int
  cost_center_code :: pystr
  cc_is_active :: bool

record CostCenterEmail =
  cce_cost_center :: int
  cce_email :: pystr
  cce_email_type :: string
  cce_is_active :: bool

record User =
  user_id :: nat
  user_email :: pystr

record EmailTemplate =
  template_id :: int
  template_is_active :: bool

text \<open>What \<open>_send_actual_email\<close> hands to Django's mail backend. (The HTML alternative,
  the body wrapped by \<open>wrap_html_with_rtl\<close>, is left out: the service never reads it
  back.)\<close>

record EmailMessage =
  msg_subject :: pystr
  msg_body :: pystr
  msg_from :: pystr
  msg_to :: "pystr list"
  msg_cc :: "pystr list"

text \<open>
  The state between calls: the tables, the two primary-key sequences of the tables the
  service inserts into, the setting \<open>DEFAULT_FROM_EMAIL\<close>, and the messages handed to the
  mail backend so far.
\<close>

record world =
  cost_centers :: "CostCenter list"
  cost_center_emails :: "CostCenterEmail list"
  users :: "User list"
  templates :: "EmailTemplate list"
  drafts :: "EmailDraft list"
  email_logs :: "EmailLog list"
  recipient_views :: "EmailRecipientView list"
  log_seq :: nat
  view_seq :: nat
  default_from_email :: pystr
  mail_attempts :: "EmailMessage list"

text \<open>
  The state inside \<open>with transaction.atomic()\<close>: the same, with the connection's flag
  \<open>needs_rollback\<close>. Django sets the flag when a statement fails inside the block; from
  then on every statement raises TransactionManagementError, and the block rolls back
  when it is left.
\<close>

record tx = world +
  needs_rollback :: bool

text \<open>
  Whether \<open>msg.send()\<close> returns or raises is decided outside the program. The backend is
  a parameter: from the messages attempted so far and the message at hand it says
  whether the send goes through.
\<close>

type_synonym backend = "EmailMessage list \<Rightarrow> EmailMessage \<Rightarrow> bool"

text \<open>
  Whether the database takes a row is decided outside the program too (a value it
  cannot encode or that does not fit its column, a lock, a lost connection). The
  database is a parameter: for a row about to be inserted it gives the message of the
  error it raises, or None when it stores the row. Reading does not fail in an intact
  transaction.
\<close>

record dbms =
  refuses_log :: "EmailLog \<Rightarrow> string option"
  refuses_view :: "EmailRecipientView \<Rightarrow> string option"

text \<open>\<open>str(e)\<close> of what the database layer raises.\<close>

fun str_db_error :: "db_error \<Rightarrow> string" where
  "str_db_error (DatabaseError m) = m"
| "str_db_error TransactionManagementError =
     ''An error occurred in the current transaction. You can't execute queries until the end of the 'atomic' block.''"

text \<open>Entering the block, and leaving it: a commit keeps what the block wrote, a rollback
  restores the two tables the block writes. Keys drawn from the sequences and messages
  handed to the mail backend are not given back.\<close>

definition begin_atomic :: "world \<Rightarrow> tx" where
  "begin_atomic w = world.extend w (tx.fields False)"

definition commit :: "tx \<Rightarrow> world" where
  "commit t = world.truncate t"

definition rollback :: "world \<Rightarrow> tx \<Rightarrow> world" where
  "rollback w t = (world.truncate t)\<lparr>email_logs := email_logs w, recipient_views := recipient_views w\<rparr>"

definition end_atomic :: "world \<Rightarrow> tx \<Rightarrow> bool \<Rightarrow> world" where
  "end_atomic w t raised = (if raised \<or> needs_rollback t then rollback w t else commit t)"

text \<open>\<open>CostCenter.get_recipient_emails\<close> and \<open>CostCenter.get_cc_emails\<close>: the addresses of
  the cost center's rows of the given type (active or not).\<close>

definition get_recipient_emails :: "'a world_scheme \<Rightarrow> CostCenter \<Rightarrow> pystr list" where
  "get_recipient_emails w self =
     map cce_email
       (filter (\<lambda>e. cce_cost_center e = cc_id self \<and> cce_email_type e = ''recipient'')
          (cost_center_emails w))"

definition get_cc_emails :: "'a world_scheme \<Rightarrow> CostCenter \<Rightarrow> pystr list" where
  "get_cc_emails w self =
     map cce_email
       (filter (\<lambda>e. cce_cost_center e = cc_id self \<and> cce_email_type e = ''cc'')
          (cost_center_emails w))"

text \<open>
  \<open>EmailLog.objects.create(...)\<close>: in a transaction marked for rollback the statement
  raises; a row the database refuses raises and marks the transaction; otherwise the
  row gets the next key of the sequence and is appended to the table.
\<close>

definition EmailLog_create :: "dbms \<Rightarrow> EmailLog \<Rightarrow> tx \<Rightarrow> (db_error + EmailLog) \<times> tx" where
  "EmailLog_create db row t =
     (if needs_rollback t then (Inl TransactionManagementError, t)
      else
        (let l = row\<lparr>log_id := log_seq t\<rparr>
         in case refuses_log db l of
              Some m \<Rightarrow> (Inl (DatabaseError m), t\<lparr>needs_rollback := True\<rparr>)
            | None \<Rightarrow> (Inr l, t\<lparr>email_logs := email_logs t @ [l], log_seq := Suc (log_seq t)\<rparr>)))"

text \<open>\<open>EmailRecipientView.objects.create(email_log=..., recipient_user=..., is_to=...,
  is_read=False)\<close>; the other columns take their defaults. The result is the error
  raised, if any.\<close>

definition EmailRecipientView_create ::
  "dbms \<Rightarrow> nat \<Rightarrow> nat \<Rightarrow> bool \<Rightarrow> tx \<Rightarrow> db_error option \<times> tx" where
  "EmailRecipientView_create db l u to t =
     (if needs_rollback t then (Some TransactionManagementError, t)
      else
        (let v = \<lparr>view_id = view_seq t, email_log = l, recipient_user = u, is_to = to,
                   is_read = False, read_at = None, is_starred = False, is_archived = False\<rparr>
         in case refuses_view db v of
              Some m \<Rightarrow> (Some (DatabaseError m), t\<lparr>needs_rollback := True\<rparr>)
            | None \<Rightarrow> (None, t\<lparr>recipient_views := recipient_views t @ [v],
                               view_seq := Suc (view_seq t)\<rparr>)))"

section \<open>Email module: the service\<close>

text \<open>The two loops of \<open>EmailService._create_recipient_tracking\<close>; an insert that raises
  ends the loop and the function.\<close>

fun create_to_rows :: "dbms \<Rightarrow> nat \<Rightarrow> User list \<Rightarrow> tx \<Rightarrow> db_error option \<times> tx" where
  "create_to_rows db l [] t = (None, t)"
| "create_to_rows db l (u # us) t =
     (case EmailRecipientView_create db l (user_id u) True t of
        (Some e, t') \<Rightarrow> (Some e, t')
      | (None, t') \<Rightarrow> create_to_rows db l us t')"

fun create_cc_rows :: "dbms \<Rightarrow> nat \<Rightarrow> User list \<Rightarrow> tx \<Rightarrow> db_error option \<times> tx" where
  "create_cc_rows db l [] t = (None, t)"
| "create_cc_rows db l (u # us) t =
     (if needs_rollback t then (Some TransactionManagementError, t)
      else if list_ex (\<lambda>v. email_log v = l \<and> recipient_user v = user_id u) (recipient_views t)
      then create_cc_rows db l us t
      else (case EmailRecipientView_create db l (user_id u) False t of
              (Some e, t') \<Rightarrow> (Some e, t')
            | (None, t') \<Rightarrow> create_cc_rows db l us t'))"

text \<open>\<open>EmailService._create_recipient_tracking\<close>. Users are matched to addresses by
  equality of the email column. The result is the error raised, if any.\<close>

definition create_recipient_tracking ::
  "dbms \<Rightarrow> EmailLog \<Rightarrow> pystr list \<Rightarrow> pystr list \<Rightarrow> tx \<Rightarrow> db_error option \<times> tx" where
  "create_recipient_tracking db email_log_row to_emails cc_emails t =
     (if needs_rollback t then (Some TransactionManagementError, t)
      else
        (let to_users = filter (\<lambda>u. user_email u \<in> set to_emails) (users t);
             cc_users = (if cc_emails \<noteq> [] then filter (\<lambda>u. user_email u \<in> set cc_emails) (users t)
                         else [])
         in case create_to_rows db (log_id email_log_row) to_users t of
              (Some e, t1) \<Rightarrow> (Some e, t1)
            | (None, t1) \<Rightarrow> create_cc_rows db (log_id email_log_row) cc_users t1))"

text \<open>\<open>EmailService._send_actual_email\<close>: True when the backend accepts the message, False
  when it raises.\<close>

definition send_actual_email ::
  "backend \<Rightarrow> pystr \<Rightarrow> pystr \<Rightarrow> pystr list \<Rightarrow> pystr list \<Rightarrow> pystr \<Rightarrow> tx \<Rightarrow> bool \<times> tx" where
  "send_actual_email mail subject body_html to_emails cc_emails from_email t =
     (let msg = \<lparr>msg_subject = subject, msg_body = body_html, msg_from = from_email,
                  msg_to = to_emails, msg_cc = cc_emails\<rparr>
      in (mail (mail_attempts t) msg, t\<lparr>mail_attempts := mail_attempts t @ [msg]\<rparr>))"

text \<open>The dict \<open>_send_to_cost_center\<close> returns: \<open>success\<close> and \<open>cost_center\<close> always, then
  either \<open>error\<close> or \<open>recipients_count\<close> and \<open>log_id\<close>. A key that is absent is None, as
  \<open>result.get\<close> reads it.\<close>

record cc_result =
  r_success :: bool
  r_cost_center :: pystr
  r_error :: "string option"
  r_recipients_count :: "int option"
  r_log_id :: "nat option"

text \<open>The dict of the \<open>except\<close> branch of \<open>_send_to_cost_center\<close>.\<close>

definition raised_result :: "CostCenter \<Rightarrow> db_error \<Rightarrow> cc_result" where
  "raised_result cost_center e =
     \<lparr>r_success = False, r_cost_center = cost_center_code cost_center,
       r_error = Some (str_db_error e), r_recipients_count = None, r_log_id = None\<rparr>"

text \<open>
  \<open>EmailService._send_to_cost_center\<close>. The first statement of the \<open>try\<close> is a query, so in
  a transaction marked for rollback the function goes to its \<open>except\<close> branch at once;
  so it does when the insert of the log or of a tracking row raises. What was written
  before the error stays in the transaction.
\<close>

definition send_to_cost_center ::
  "backend \<Rightarrow> dbms \<Rightarrow> User \<Rightarrow> CostCenter \<Rightarrow> string \<Rightarrow> pystr \<Rightarrow> pystr
    \<Rightarrow> EmailTemplate option \<Rightarrow> EmailDraft option \<Rightarrow> tx \<Rightarrow> cc_result \<times> tx" where
  "send_to_cost_center mail db user cost_center send_type subject body_html template draft t =
     (if needs_rollback t then (raised_result cost_center TransactionManagementError, t)
      else
        (let to_emails = get_recipient_emails t cost_center;
             cc_emails = get_cc_emails t cost_center
         in if to_emails = []
            then (\<lparr>r_success = False, r_cost_center = cost_center_code cost_center,
                    r_error = Some ''No users in cost center'',
                    r_recipients_count = None, r_log_id = None\<rparr>, t)
            else
              (let (email_sent, t1) =
                     send_actual_email mail subject body_html to_emails cc_emails
                       (default_from_email t) t
               in case EmailLog_create db
                     \<lparr>log_id = 0, log_user = Some (user_id user),
                       log_cost_center = Some (cc_id cost_center),
                       log_template = map_option template_id template,
                       log_draft = map_option draft_id draft,
                       log_send_type = send_type, log_email_type = ''RECEIVED'',
                       log_subject = subject, log_body_html = body_html,
                       log_recipient_emails = py_join [44] to_emails,
                       log_cc_emails = (if cc_emails \<noteq> [] then Some (py_join [44] cc_emails) else None),
                       log_email_status = (if email_sent then ''SUCCESS'' else ''FAILED''),
                       log_email_error = (if email_sent then None else Some ''Email sending failed'')\<rparr>
                     t1 of
                    (Inl e, t2) \<Rightarrow> (raised_result cost_center e, t2)
                  | (Inr received_log, t2) \<Rightarrow>
                      (case (if email_sent
                             then create_recipient_tracking db received_log to_emails cc_emails t2
                             else (None, t2)) of
                         (Some e, t3) \<Rightarrow> (raised_result cost_center e, t3)
                       | (None, t3) \<Rightarrow>
                           (\<lparr>r_success = email_sent, r_cost_center = cost_center_code cost_center,
                             r_error = None, r_recipients_count = Some (int (length to_emails)),
                             r_log_id = Some (log_id received_log)\<rparr>, t3)))))"

text \<open>\<open>EmailService._create_sent_log\<close>: the sender's outbox entry, with the addresses of
  all targeted cost centers. It has no \<open>try\<close>: what the insert raises goes to the caller.
  (Its queries come before the insert and raise the same error in a marked
  transaction.)\<close>

definition create_sent_log ::
  "dbms \<Rightarrow> User \<Rightarrow> string \<Rightarrow> pystr \<Rightarrow> pystr \<Rightarrow> CostCenter list \<Rightarrow> EmailTemplate option
    \<Rightarrow> EmailDraft option \<Rightarrow> string \<Rightarrow> string option \<Rightarrow> tx \<Rightarrow> (db_error + EmailLog) \<times> tx" where
  "create_sent_log db user send_type subject body_html cost_centers_list template draft status err t =
     (let all_to_emails = concat (map (get_recipient_emails t) cost_centers_list);
          all_cc_emails = concat (map (get_cc_emails t) cost_centers_list)
      in EmailLog_create db
           \<lparr>log_id = 0, log_user = Some (user_id user), log_cost_center = None,
             log_template = map_option template_id template,
             log_draft = map_option draft_id draft,
             log_send_type = send_type, log_email_type = ''SENT'',
             log_subject = subject, log_body_html = body_html,
             log_recipient_emails = py_join [44] all_to_emails,
             log_cc_emails = (if all_cc_emails \<noteq> [] then Some (py_join [44] all_cc_emails) else None),
             log_email_status = status, log_email_error = err\<rparr>
           t)"

text \<open>
  What \<open>send_email\<close> returns: \<open>{'success': False, 'error': ...}\<close>, or the summary dict built
  after the loop over the cost centers.
\<close>

datatype send_result =
    Failure string
  | Summary (summary_success: bool) (sent_count: int) (failed_count: int)
      (total_cost_centers: int) (details: "cc_result list") (sent_log_id: "nat option")

fun success :: "send_result \<Rightarrow> bool" where
  "success (Failure e) = False"
| "success (Summary s n f t d l) = s"

text \<open>The first statements of \<open>send_email\<close>: the queryset of the targeted cost centers, or
  the error dict the function returns at once.\<close>

definition target_cost_centers :: "string \<Rightarrow> int list option \<Rightarrow> world \<Rightarrow> string + CostCenter list" where
  "target_cost_centers send_type cost_center_id_list w =
     (if send_type = ''ANNOUNCEMENT'' then Inr (filter cc_is_active (cost_centers w))
      else if send_type = ''SPECIFIC'' then
        (if cost_center_id_list = None \<or> cost_center_id_list = Some []
         then Inl ''Cost center IDs required for SPECIFIC send type''
         else Inr (filter (\<lambda>c. cc_id c \<in> set (the cost_center_id_list) \<and> cc_is_active c)
                     (cost_centers w)))
      else Inl ''Invalid send type'')"

text \<open>\<open>if template_id: ... EmailTemplate.objects.get(id=template_id)\<close>, with DoesNotExist
  passed over; zero and None are false.\<close>

definition get_template :: "int option \<Rightarrow> world \<Rightarrow> EmailTemplate option" where
  "get_template tid w =
     (case tid of
        None \<Rightarrow> None
      | Some i \<Rightarrow> if i = 0 then None else find (\<lambda>t. template_id t = i) (templates w))"

text \<open>\<open>if draft_id: ... EmailDraft.objects.get(id=draft_id, user=user)\<close>; the manager of
  EmailDraft leaves out deleted drafts.\<close>

definition get_draft :: "int option \<Rightarrow> User \<Rightarrow> world \<Rightarrow> EmailDraft option" where
  "get_draft did user w =
     (case did of
        None \<Rightarrow> None
      | Some i \<Rightarrow> if i = 0 then None
                  else find (\<lambda>d. draft_id d = i \<and> draft_user d = user_id user \<and> \<not> is_deleted d)
                         (drafts w))"

text \<open>
  The loop \<open>for cost_center in cost_centers\<close> of \<open>send_email\<close>: the cost centers still to
  visit, the results so far, the outbox entry once it exists, and the state.
  \<open>all_cost_centers\<close> is \<open>list(cost_centers)\<close>, the whole queryset. The loop ends early,
  with the error, when \<open>_create_sent_log\<close> raises.
\<close>

fun send_loop ::
  "backend \<Rightarrow> dbms \<Rightarrow> User \<Rightarrow> string \<Rightarrow> pystr \<Rightarrow> pystr \<Rightarrow> EmailTemplate option
    \<Rightarrow> EmailDraft option \<Rightarrow> CostCenter list \<Rightarrow> CostCenter list \<Rightarrow> cc_result list
    \<Rightarrow> EmailLog option \<Rightarrow> tx \<Rightarrow> (db_error + cc_result list \<times> EmailLog option) \<times> tx" where
  "send_loop mail db user send_type subject body_html template draft all_cost_centers [] results
     sent_log t = (Inr (results, sent_log), t)"
| "send_loop mail db user send_type subject body_html template draft all_cost_centers
     (cost_center # rest) results sent_log t =
     (let (result, t1) =
            send_to_cost_center mail db user cost_center send_type subject body_html template
              draft t
      in case sent_log of
           None \<Rightarrow>
             (case create_sent_log db user send_type subject body_html all_cost_centers
                     template draft (if r_success result then ''SUCCESS'' else ''FAILED'')
                     (r_error result) t1 of
                (Inl e, t2) \<Rightarrow> (Inl e, t2)
              | (Inr l, t2) \<Rightarrow>
                  send_loop mail db user send_type subject body_html template draft
                    all_cost_centers rest (results @ [result]) (Some l) t2)
         | Some l \<Rightarrow>
             send_loop mail db user send_type subject body_html template draft all_cost_centers
               rest (results @ [result]) (Some l) t1)"

text \<open>
  \<open>EmailService.send_email\<close>. The validation returns leave the block without having
  written anything. An error that leaves the loop reaches the outer \<open>except\<close>: the block
  rolls back and the error dict is returned. When the loop ends the summary is
  returned, and the block commits unless an error caught inside \<open>_send_to_cost_center\<close>
  has marked the transaction, in which case it rolls back as well.
\<close>

definition send_email ::
  "backend \<Rightarrow> dbms \<Rightarrow> User \<Rightarrow> string \<Rightarrow> pystr \<Rightarrow> pystr \<Rightarrow> int list option \<Rightarrow> int option
    \<Rightarrow> int option \<Rightarrow> world \<Rightarrow> send_result \<times> world" where
  "send_email mail db user send_type subject body_html cost_center_id_list tid did w =
     (case target_cost_centers send_type cost_center_id_list w of
        Inl e \<Rightarrow> (Failure e, w)
      | Inr targets \<Rightarrow>
          if targets = [] then (Failure ''No active cost centers found'', w)
          else
            (let template = get_template tid w;
                 draft = get_draft did user w
             in case send_loop mail db user send_type subject body_html template draft targets
                       targets [] None (begin_atomic w) of
                  (Inl e, t) \<Rightarrow> (Failure (str_db_error e), end_atomic w t True)
                | (Inr (results, sent_log), t) \<Rightarrow>
                    (let successful = int (length (filter r_success results));
                         failed = int (length results) - successful
                     in (Summary (successful > 0) successful failed (int (length results))
                           results (map_option log_id sent_log),
                         end_atomic w t False))))"

section \<open>Email module: what a send created\<close>

text \<open>Rows are appended to their tables, so the rows a call created are the ones after
  the old length.\<close>

definition created_logs :: "world \<Rightarrow> world \<Rightarrow> EmailLog list" where
  "created_logs w w' = drop (length (email_logs w)) (email_logs w')"

definition sent_logs :: "EmailLog list \<Rightarrow> EmailLog list" where
  "sent_logs ls = filter (\<lambda>l. log_email_type l = ''SENT'') ls"

definition received_logs :: "EmailLog list \<Rightarrow> EmailLog list" where
  "received_logs ls = filter (\<lambda>l. log_email_type l = ''RECEIVED'') ls"

text \<open>The tracking rows of a log, and the users a cost center's TO and CC addresses
  belong to.\<close>

definition tracking_rows :: "world \<Rightarrow> EmailLog \<Rightarrow> EmailRecipientView list" where
  "tracking_rows w l = filter (\<lambda>v. email_log v = log_id l) (recipient_views w)"

definition recipient_users :: "'a world_scheme \<Rightarrow> CostCenter \<Rightarrow> User list" where
  "recipient_users w c =
     filter (\<lambda>u. user_email u \<in> set (get_recipient_emails w c)
                \<or> user_email u \<in> set (get_cc_emails w c)) (users w)"

definition fresh_row :: "EmailRecipientView \<Rightarrow> bool" where
  "fresh_row v = (\<not> is_read v \<and> read_at v = None \<and> \<not> is_starred v \<and> \<not> is_archived v)"

text \<open>
  What the rows of a log have to be: when the mail went out, one unread row for each
  recipient user of the cost center and no other row; when it did not, no row.
\<close>

definition tracked :: "'a world_scheme \<Rightarrow> CostCenter \<Rightarrow> EmailLog \<Rightarrow> EmailRecipientView list \<Rightarrow> bool" where
  "tracked w c l rows =
     (if log_email_status l = ''SUCCESS''
      then distinct (map recipient_user rows)
           \<and> set (map recipient_user rows) = set (map user_id (recipient_users w c))
           \<and> list_all fresh_row rows
      else rows = [])"

text \<open>A state with rows appended to the two tables the service writes, the sequences
  advanced by as much, and messages appended to the backend's history.\<close>

definition grown ::
  "'a world_scheme \<Rightarrow> EmailLog list \<Rightarrow> EmailRecipientView list \<Rightarrow> EmailMessage list \<Rightarrow> 'a world_scheme" where
  "grown w ls vs ms =
     w\<lparr>email_logs := email_logs w @ ls, log_seq := log_seq w + length ls,
       recipient_views := recipient_views w @ vs, view_seq := view_seq w + length vs,
       mail_attempts := mail_attempts w @ ms\<rparr>"

text \<open>A database that stores every row.\<close>

definition permissive :: dbms where
  "permissive = \<lparr>refuses_log = (\<lambda>l. None), refuses_view = (\<lambda>v. None)\<rparr>"

section \<open>Email module: example states\<close>

text \<open>
  Two active cost centers and an inactive one. CC-001 has a TO address and a CC address
  that belong to users 1 and 2; the TO address of user 1 is also listed as CC. CC-002
  has no address at all.
\<close>

definition example_world :: world where
  "example_world =
     \<lparr>cost_centers =
        [\<lparr>cc_id = 1, cost_center_code = ascii ''CC-001'', cc_is_active = True\<rparr>,
         \<lparr>cc_id = 2, cost_center_code = ascii ''CC-002'', cc_is_active = True\<rparr>,
         \<lparr>cc_id = 3, cost_center_code = ascii ''CC-003'', cc_is_active = False\<rparr>],
      cost_center_emails =
        [\<lparr>cce_cost_center = 1, cce_email = ascii ''a@x.org'', cce_email_type = ''cc'',
           cce_is_active = True\<rparr>,
         \<lparr>cce_cost_center = 1, cce_email = ascii ''b@x.org'', cce_email_type = ''cc'',
           cce_is_active = True\<rparr>,
         \<lparr>cce_cost_center = 1, cce_email = ascii ''a@x.org'', cce_email_type = ''recipient'',
           cce_is_active = True\<rparr>],
      users =
        [\<lparr>user_id = 1, user_email = ascii ''a@x.org''\<rparr>,
         \<lparr>user_id = 2, user_email = ascii ''b@x.org''\<rparr>,
         \<lparr>user_id = 3, user_email = ascii ''c@x.org''\<rparr>],
      templates = [], drafts = [], email_logs = [], recipient_views = [],
      log_seq = 1, view_seq = 1, default_from_email = ascii ''noreply@x.org'',
      mail_attempts = []\<rparr>"

text \<open>The same state with a TO address for CC-002.\<close>

definition example_world2 :: world where
  "example_world2 =
     example_world\<lparr>cost_center_emails := cost_center_emails example_world @
        [\<lparr>cce_cost_center = 2, cce_email = ascii ''c@x.org'', cce_email_type = ''recipient'',
           cce_is_active = True\<rparr>]\<rparr>"

definition sender :: User where
  "sender = \<lparr>user_id = 3, user_email = ascii ''c@x.org''\<rparr>"

definition accepting :: backend where
  "accepting attempts msg = True"

definition refusing :: backend where
  "refusing attempts msg = False"

text \<open>A database that cannot store any log (as for a subject it cannot encode), and one
  that fails on the logs of cost center 2 only (as when that cost center's row has been
  deleted meanwhile).\<close>

definition storing_no_log :: dbms where
  "storing_no_log = \<lparr>refuses_log = (\<lambda>l. Some ''value not storable''), refuses_view = (\<lambda>v. None)\<rparr>"

definition failing_for_cc2 :: dbms where
  "failing_for_cc2 =
     \<lparr>refuses_log = (\<lambda>l. if log_cost_center l = Some 2 then Some ''foreign key violation'' else None),
       refuses_view = (\<lambda>v. None)\<rparr>"

text \<open>Calls in the example states: an announcement with a backend that accepts every
  message, the same with a backend that refuses every message, a send with a type that
  does not exist, a send to the inactive cost center alone, an announcement to a
  database that stores no log, and two announcements during which the database fails on
  the second cost center, with a backend that accepts and one that refuses every
  message.\<close>

definition announcement_accepted :: "send_result \<times> world" where
  "announcement_accepted =
     send_email accepting permissive sender ''ANNOUNCEMENT'' (ascii ''S'') (ascii ''B'') None None
       None example_world"

definition announcement_refused :: "send_result \<times> world" where
  "announcement_refused =
     send_email refusing permissive sender ''ANNOUNCEMENT'' (ascii ''S'') (ascii ''B'') None None
       None example_world"

definition send_of_unknown_type :: "send_result \<times> world" where
  "send_of_unknown_type =
     send_email accepting permissive sender ''BROADCAST'' (ascii ''S'') (ascii ''B'') (Some [1])
       None None example_world"

definition send_to_inactive :: "send_result \<times> world" where
  "send_to_inactive =
     send_email accepting permissive sender ''SPECIFIC'' (ascii ''S'') (ascii ''B'') (Some [3])
       None None example_world"

definition announcement_not_stored :: "send_result \<times> world" where
  "announcement_not_stored =
     send_email accepting storing_no_log sender ''ANNOUNCEMENT'' (ascii ''S'') (ascii ''B'') None
       None None example_world"

definition announcement_half_stored :: "send_result \<times> world" where
  "announcement_half_stored =
     send_email accepting failing_for_cc2 sender ''ANNOUNCEMENT'' (ascii ''S'') (ascii ''B'') None
       None None example_world2"

definition announcement_refused_half_stored :: "send_result \<times> world" where
  "announcement_refused_half_stored =
     send_email refusing failing_for_cc2 sender ''ANNOUNCEMENT'' (ascii ''S'') (ascii ''B'') None
       None None example_world2"

section \<open>Survey module: the validation rules\<close>

lemma py_in_self: "py_in s s"
  by (cases s) simp_all

lemma clean_Nil_iff:
  "clean c = [] \<longleftrightarrow>
     (q_type (trigger_question c) = ''yes_no'' \<or> q_type (trigger_question c) = ''single_choice'')
     \<and> q_survey (trigger_question c) = q_survey (dependent_question c)
     \<and> q_order (trigger_question c) < q_order (dependent_question c)"
  by (simp add: clean_def)

lemma save_Inr_clean: "save c table = Inr table' \<Longrightarrow> clean c = []"
  by (auto simp: save_def split: list.splits if_splits)

lemma save_invalid: "clean c \<noteq> [] \<Longrightarrow> save c table = Inl (ValidationError (clean c))"
  by (cases "clean c") (simp_all add: save_def)

lemma save_raises:
  assumes "m \<in> set (clean c)"
  shows "raises_containing m (save c table)"
proof -
  from assms have "clean c \<noteq> []" by auto
  then have "save c table = Inl (ValidationError (clean c))" by (rule save_invalid)
  moreover from assms have "list_ex (py_in m) (clean c)"
    unfolding list_ex_iff using py_in_self by blast
  ultimately show ?thesis by simp
qed

text \<open>
  C3: a condition is saved only if the trigger question's order is strictly less than
  the dependent question's order; when it is not, saving raises a ValidationError that
  contains 'Trigger question must appear before the dependent question'; and of two
  conditions that link the same two orders in opposite directions (Q1 triggers Q2 and
  Q2 triggers Q1) at most one can be saved.
\<close>

theorem save_trigger_before_dependent:
  "(\<forall>table'. save c table = Inr table' \<longrightarrow>
       q_order (trigger_question c) < q_order (dependent_question c))
   \<and> (\<not> q_order (trigger_question c) < q_order (dependent_question c) \<longrightarrow>
       raises_containing ''Trigger question must appear before the dependent question''
         (save c table))
   \<and> (q_order (trigger_question c2) = q_order (dependent_question c)
       \<and> q_order (dependent_question c2) = q_order (trigger_question c) \<longrightarrow>
       isl (save c table) \<or> isl (save c2 table2))"
proof (intro conjI allI impI)
  fix table'
  assume "save c table = Inr table'"
  then show "q_order (trigger_question c) < q_order (dependent_question c)"
    using save_Inr_clean clean_Nil_iff by blast
next
  assume "\<not> q_order (trigger_question c) < q_order (dependent_question c)"
  then have "''Trigger question must appear before the dependent question'' \<in> set (clean c)"
    by (simp add: clean_def)
  then show "raises_containing ''Trigger question must appear before the dependent question''
      (save c table)"
    by (rule save_raises)
next
  assume cross: "q_order (trigger_question c2) = q_order (dependent_question c)
       \<and> q_order (dependent_question c2) = q_order (trigger_question c)"
  show "isl (save c table) \<or> isl (save c2 table2)"
  proof (cases "q_order (trigger_question c) < q_order (dependent_question c)")
    case True
    with cross have "clean c2 \<noteq> []" by (simp add: clean_Nil_iff)
    then show ?thesis by (simp add: save_invalid)
  next
    case False
    then have "clean c \<noteq> []" by (simp add: clean_Nil_iff)
    then show ?thesis by (simp add: save_invalid)
  qed
qed

theorem save_trigger_before_dependent_witness:
  "save (condition setup_trigger_question setup_dependent_question) []
     = Inr [condition setup_trigger_question setup_dependent_question]
   \<and> q_order setup_trigger_question < q_order setup_dependent_question
   \<and> raises_containing ''Trigger question must appear before the dependent question''
       (save (condition (setup_dependent_question\<lparr>q_type := ''yes_no''\<rparr>) setup_trigger_question)
          [condition setup_trigger_question setup_dependent_question])
   \<and> isl (save (condition (setup_dependent_question\<lparr>q_type := ''yes_no''\<rparr>) setup_trigger_question)
          [condition setup_trigger_question setup_dependent_question])"
  using save_trigger_before_dependent
    [of "condition (setup_dependent_question\<lparr>q_type := ''yes_no''\<rparr>) setup_trigger_question"
        "[condition setup_trigger_question setup_dependent_question]"
        "condition setup_trigger_question setup_dependent_question" "[]"]
  by (simp add: save_def clean_def condition_def same_condition_def
      setup_trigger_question_def setup_dependent_question_def)

text \<open>
  C4: a condition is saved only if the trigger question's type is 'yes_no' or
  'single_choice'; with any other trigger type saving raises a ValidationError that
  contains 'Only yes/no and single choice questions can be triggers'.
\<close>

theorem save_trigger_type:
  "(\<forall>table'. save c table = Inr table' \<longrightarrow>
       q_type (trigger_question c) = ''yes_no'' \<or> q_type (trigger_question c) = ''single_choice'')
   \<and> (q_type (trigger_question c) \<noteq> ''yes_no'' \<and> q_type (trigger_question c) \<noteq> ''single_choice'' \<longrightarrow>
       raises_containing ''Only yes/no and single choice questions can be triggers'' (save c table))"
proof (intro conjI allI impI)
  fix table'
  assume "save c table = Inr table'"
  then show "q_type (trigger_question c) = ''yes_no'' \<or> q_type (trigger_question c) = ''single_choice''"
    using save_Inr_clean clean_Nil_iff by blast
next
  assume "q_type (trigger_question c) \<noteq> ''yes_no'' \<and> q_type (trigger_question c) \<noteq> ''single_choice''"
  then have "''Only yes/no and single choice questions can be triggers'' \<in> set (clean c)"
    by (simp add: clean_def)
  then show "raises_containing ''Only yes/no and single choice questions can be triggers'' (save c table)"
    by (rule save_raises)
qed

theorem save_trigger_type_witness:
  "raises_containing ''Only yes/no and single choice questions can be triggers''
     (save (condition \<lparr>q_id = 3, q_survey = 1, q_type = ''text'', q_order = 3\<rparr>
                      \<lparr>q_id = 4, q_survey = 1, q_type = ''text'', q_order = 4\<rparr>) [])
   \<and> save (condition setup_trigger_question setup_dependent_question) []
       = Inr [condition setup_trigger_question setup_dependent_question]
   \<and> q_type setup_trigger_question = ''yes_no''"
  using save_trigger_type
    [of "condition \<lparr>q_id = 3, q_survey = 1, q_type = ''text'', q_order = 3\<rparr>
                   \<lparr>q_id = 4, q_survey = 1, q_type = ''text'', q_order = 4\<rparr>" "[]"]
    save_trigger_type [of "condition setup_trigger_question setup_dependent_question" "[]"]
  by (simp add: save_def clean_def condition_def
      setup_trigger_question_def setup_dependent_question_def)

text \<open>
  C5: a condition is saved only if the trigger question and the dependent question
  belong to the same survey; when they belong to different surveys saving raises a
  ValidationError that contains 'must be in the same survey'.
\<close>

theorem save_same_survey:
  "(\<forall>table'. save c table = Inr table' \<longrightarrow>
       q_survey (trigger_question c) = q_survey (dependent_question c))
   \<and> (q_survey (trigger_question c) \<noteq> q_survey (dependent_question c) \<longrightarrow>
       raises_containing ''must be in the same survey'' (save c table))"
proof (intro conjI allI impI)
  fix table'
  assume "save c table = Inr table'"
  then show "q_survey (trigger_question c) = q_survey (dependent_question c)"
    using save_Inr_clean clean_Nil_iff by blast
next
  assume "q_survey (trigger_question c) \<noteq> q_survey (dependent_question c)"
  then have "''must be in the same survey'' \<in> set (clean c)"
    by (simp add: clean_def)
  then show "raises_containing ''must be in the same survey'' (save c table)"
    by (rule save_raises)
qed

theorem save_same_survey_witness:
  "raises_containing ''must be in the same survey''
     (save (condition setup_trigger_question
              \<lparr>q_id = 3, q_survey = 2, q_type = ''text'', q_order = 1\<rparr>) [])
   \<and> save (condition setup_trigger_question setup_dependent_question) []
       = Inr [condition setup_trigger_question setup_dependent_question]
   \<and> q_survey setup_trigger_question = q_survey setup_dependent_question"
  using save_same_survey
    [of "condition setup_trigger_question
           \<lparr>q_id = 3, q_survey = 2, q_type = ''text'', q_order = 1\<rparr>" "[]"]
    save_same_survey [of "condition setup_trigger_question setup_dependent_question" "[]"]
  by (simp add: save_def clean_def condition_def
      setup_trigger_question_def setup_dependent_question_def)

section \<open>Email module: marking a row as read\<close>






section \<open>Email module: round trips of the text fields\<close>

lemma py_split_not_Nil: "py_split sep s \<noteq> []"
  by (induction s) (auto split: list.splits)

lemma py_split_no_sep: "sep \<notin> set x \<Longrightarrow> py_split sep x = [x]"
  by (induction x) auto

lemma py_split_append_sep:
  "sep \<notin> set x \<Longrightarrow> py_split sep (x @ sep # rest) = x # py_split sep rest"
  by (induction x) auto

lemma py_split_join:
  "xs \<noteq> [] \<Longrightarrow> list_all (\<lambda>x. sep \<notin> set x) xs \<Longrightarrow> py_split sep (py_join [sep] xs) = xs"
proof (induction "[sep]" xs rule: py_join.induct)
  case 1
  then show ?case by simp
next
  case (2 x)
  then show ?case by (simp add: py_split_no_sep)
next
  case (3 x y ys)
  then show ?case by (simp add: py_split_append_sep)
qed

lemma py_strip_id:
  assumes "e \<noteq> []" and "\<not> isspace (hd e)" and "\<not> isspace (last e)"
  shows "py_strip e = e"
proof -
  from assms(1,2) have a: "dropWhile isspace e = e" by (cases e) auto
  from assms(1,3) have "dropWhile isspace (rev e) = rev e"
    by (cases "rev e") (auto simp: last_rev [symmetric] hd_rev)
  with a show ?thesis by (simp add: py_strip_def)
qed

lemma digits_not_Nil: "digits n \<noteq> []"
  by (induction n rule: digits.induct) (subst digits.simps, simp)

text \<open>The digits \<open>str\<close> writes are the ASCII digits, which \<open>int\<close> reads back.\<close>

lemma ascii_digit_zero: "48 \<le> c \<Longrightarrow> c \<le> 57 \<Longrightarrow> digit_zero c = Some 48"
  by (simp add: digit_zero_def digit_zeros_def)

lemma ascii_isdigit: "48 \<le> c \<Longrightarrow> c \<le> 57 \<Longrightarrow> isdigit c"
  by (simp add: isdigit_def ascii_digit_zero)

lemma ascii_digit_value: "48 \<le> c \<Longrightarrow> c \<le> 57 \<Longrightarrow> digit_value c = c - 48"
  by (simp add: digit_value_def ascii_digit_zero)

lemma underscore_no_digit: "\<not> isdigit 95"
  by (simp add: isdigit_def digit_zero_def digit_zeros_def)

lemma digits_ascii: "list_all (\<lambda>c. 48 \<le> c \<and> c \<le> 57) (digits n)"
proof (induction n rule: digits.induct)
  case (1 n)
  show ?case
  proof (cases "n < 10")
    case True
    then show ?thesis by (subst digits.simps) simp
  next
    case False
    then have "list_all (\<lambda>c. 48 \<le> c \<and> c \<le> 57) (digits (n div 10))" by (rule "1.IH")
    moreover have "n mod 10 < 10" by simp
    then have "48 \<le> 48 + n mod 10 \<and> 48 + n mod 10 \<le> 57" by linarith
    ultimately show ?thesis using False by (subst digits.simps) simp
  qed
qed

lemma digits_isdigit: "list_all isdigit (digits n)"
  using digits_ascii [of n] by (auto simp: list_all_iff ascii_isdigit)

lemma digits_value_snoc: "digits_value acc (cs @ [c]) = digits_value acc cs * 10 + digit_value c"
  by (induction cs arbitrary: acc) simp_all

lemma digits_value_digits: "digits_value 0 (digits n) = n"
proof (induction n rule: digits.induct)
  case (1 n)
  show ?case
  proof (cases "n < 10")
    case True
    then show ?thesis by (subst digits.simps) (simp add: ascii_digit_value)
  next
    case False
    then have "digits_value 0 (digits (n div 10)) = n div 10" by (rule "1.IH")
    moreover have "n mod 10 < 10" by simp
    then have "digit_value (48 + n mod 10) = n mod 10" by (simp add: ascii_digit_value)
    ultimately show ?thesis using False by (subst digits.simps) (simp add: digits_value_snoc)
  qed
qed

lemma int_body_digits: "cs \<noteq> [] \<Longrightarrow> list_all isdigit cs \<Longrightarrow> int_body cs"
  by (induction cs rule: int_body.induct) (auto simp: underscore_no_digit)

lemma ascii_digit_not_space: "48 \<le> c \<Longrightarrow> c \<le> 57 \<Longrightarrow> \<not> isspace c"
  by (auto simp: isspace_def)

lemma digits_hd_last:
  "48 \<le> hd (digits n) \<and> hd (digits n) \<le> 57 \<and> 48 \<le> last (digits n) \<and> last (digits n) \<le> 57"
  using digits_ascii [of n] digits_not_Nil [of n] by (auto simp: list_all_iff)

lemma digits_strip: "py_strip (digits n) = digits n"
proof (rule py_strip_id)
  show "digits n \<noteq> []" by (rule digits_not_Nil)
  show "\<not> isspace (hd (digits n))" "\<not> isspace (last (digits n))"
    using digits_hd_last [of n] by (simp_all add: ascii_digit_not_space)
qed

lemma py_str_no_comma: "44 \<notin> set (py_str i)"
  using digits_ascii [of "nat i"] digits_ascii [of "nat (- i)"]
  by (auto simp: py_str_def list_all_iff)

lemma py_str_strip: "py_strip (py_str i) = py_str i"
proof (rule py_strip_id)
  show "py_str i \<noteq> []" by (simp add: py_str_def digits_not_Nil)
  show "\<not> isspace (hd (py_str i))"
    using digits_hd_last [of "nat i"] digits_not_Nil [of "nat i"]
    by (auto simp: py_str_def isspace_def)
  show "\<not> isspace (last (py_str i))"
    using digits_hd_last [of "nat i"] digits_hd_last [of "nat (- i)"]
      digits_not_Nil [of "nat i"] digits_not_Nil [of "nat (- i)"]
    by (auto simp: py_str_def ascii_digit_not_space)
qed

lemma filter_isdigit_digits: "filter isdigit (digits n) = digits n"
  using digits_isdigit [of n] by (simp add: list_all_iff)

lemma py_int_py_str: "py_int (py_str i) = Inr i"
proof (cases "i < 0")
  case True
  have "hd (digits (nat (- i))) \<noteq> 45" "hd (digits (nat (- i))) \<noteq> 43"
    using digits_hd_last [of "nat (- i)"] by auto
  have s: "py_strip (45 # digits (nat (- i))) = 45 # digits (nat (- i))"
    using py_str_strip [of i] True by (simp add: py_str_def)
  show ?thesis using True
    by (simp add: py_int_def py_str_def s Let_def filter_isdigit_digits digits_value_digits
        int_body_digits digits_not_Nil digits_isdigit)
next
  case False
  have h: "hd (digits (nat i)) \<noteq> 45" "hd (digits (nat i)) \<noteq> 43"
    using digits_hd_last [of "nat i"] by auto
  show ?thesis using False h
    by (simp add: py_int_def py_str_def digits_strip Let_def filter_isdigit_digits
        digits_value_digits int_body_digits digits_not_Nil digits_isdigit)
qed

lemma ints_map_py_str: "ints (map py_str ids) = Inr ids"
proof (induction ids)
  case Nil
  show ?case by simp
next
  case (Cons i ids)
  have "py_str i \<noteq> []" by (simp add: py_str_def digits_not_Nil)
  with Cons show ?case by (simp add: py_str_strip py_int_py_str)
qed

lemma py_join_Nil_iff: "list_all (\<lambda>x. x \<noteq> []) xs \<Longrightarrow> py_join sep xs = [] \<longleftrightarrow> xs = []"
  by (induction sep xs rule: py_join.induct) auto

lemma py_str_not_Nil: "py_str i \<noteq> []"
  by (simp add: py_str_def digits_not_Nil)

lemma get_set_cost_center_list: "get_cost_center_list (set_cost_center_list ids d) = Inr ids"
proof (cases ids)
  case Nil
  then show ?thesis by (simp add: get_cost_center_list_def set_cost_center_list_def)
next
  case (Cons i rest)
  have ne: "list_all (\<lambda>x. x \<noteq> []) (map py_str ids)"
    by (simp add: list_all_iff py_str_not_Nil)
  have nc: "list_all (\<lambda>x. 44 \<notin> set x) (map py_str ids)"
    by (simp add: list_all_iff py_str_no_comma)
  from Cons have "map py_str ids \<noteq> []" by simp
  with ne have "py_join [44] (map py_str ids) \<noteq> []" by (simp add: py_join_Nil_iff)
  moreover from \<open>map py_str ids \<noteq> []\<close> nc
  have "py_split 44 (py_join [44] (map py_str ids)) = map py_str ids" by (rule py_split_join)
  ultimately show ?thesis
    by (simp add: get_cost_center_list_def set_cost_center_list_def ints_map_py_str)
qed

lemma get_set_recipient_list:
  assumes "list_all (\<lambda>e. e \<noteq> [] \<and> 44 \<notin> set e \<and> \<not> isspace (hd e) \<and> \<not> isspace (last e)) emails"
  shows "get_recipient_list (set_recipient_list emails l) = emails"
proof (cases emails)
  case Nil
  then show ?thesis by (simp add: get_recipient_list_def set_recipient_list_def)
next
  case (Cons e es)
  from assms have ne: "list_all (\<lambda>x. x \<noteq> []) emails" and nc: "list_all (\<lambda>x. 44 \<notin> set x) emails"
    by (simp_all add: list_all_iff)
  from assms have st: "map py_strip emails = emails"
    by (simp add: list_all_iff map_idI py_strip_id)
  from ne have fl: "filter (\<lambda>e. e \<noteq> []) emails = emails" by (simp add: list_all_iff)
  from Cons have "emails \<noteq> []" by simp
  with ne have "py_join [44] emails \<noteq> []" by (simp add: py_join_Nil_iff)
  moreover from \<open>emails \<noteq> []\<close> nc have "py_split 44 (py_join [44] emails) = emails"
    by (rule py_split_join)
  ultimately show ?thesis
    by (simp add: get_recipient_list_def set_recipient_list_def st fl)
qed

text \<open>
  C10 (as stated, for the email list): a list of non-empty strings without commas is not
  always returned as it was set. \<open>get_recipient_list\<close> strips every piece, so the string
  ' a@b.c', which is not empty and has no comma, comes back as 'a@b.c'.
\<close>

theorem recipient_list_round_trip_counterexample:
  "ascii '' a@b.c'' \<noteq> [] \<and> 44 \<notin> set (ascii '' a@b.c'')
   \<and> get_recipient_list (set_recipient_list [ascii '' a@b.c''] example_log) = [ascii ''a@b.c'']
   \<and> get_recipient_list (set_recipient_list [ascii '' a@b.c''] example_log) \<noteq> [ascii '' a@b.c'']"
  by (simp add: get_recipient_list_def set_recipient_list_def ascii_def py_strip_def isspace_def)

text \<open>
  C10 (amended): for every list of integer ids, \<open>set_cost_center_list\<close> followed by
  \<open>get_cost_center_list\<close> returns the list; \<open>get_cost_center_list\<close> returns the empty list
  when \<open>cost_center_ids\<close> is unset or empty; and for every list of non-empty strings that
  contain no comma and neither start nor end with whitespace, \<open>set_recipient_list\<close>
  followed by \<open>get_recipient_list\<close> returns the list.
\<close>

theorem text_field_round_trip:
  "get_cost_center_list (set_cost_center_list ids d) = Inr ids
   \<and> (cost_center_ids d = None \<or> cost_center_ids d = Some [] \<longrightarrow> get_cost_center_list d = Inr [])
   \<and> (list_all (\<lambda>e. e \<noteq> [] \<and> 44 \<notin> set e \<and> \<not> isspace (hd e) \<and> \<not> isspace (last e)) emails
        \<longrightarrow> get_recipient_list (set_recipient_list emails l) = emails)"
proof (intro conjI impI)
  show "get_cost_center_list (set_cost_center_list ids d) = Inr ids"
    by (rule get_set_cost_center_list)
next
  assume "cost_center_ids d = None \<or> cost_center_ids d = Some []"
  then show "get_cost_center_list d = Inr []"
    by (auto simp: get_cost_center_list_def)
next
  assume "list_all (\<lambda>e. e \<noteq> [] \<and> 44 \<notin> set e \<and> \<not> isspace (hd e) \<and> \<not> isspace (last e)) emails"
  then show "get_recipient_list (set_recipient_list emails l) = emails"
    by (rule get_set_recipient_list)
qed

theorem text_field_round_trip_witness:
  "get_cost_center_list (set_cost_center_list [12, - 3, 0] example_draft) = Inr [12, - 3, 0]
   \<and> cost_center_ids example_draft = None
   \<and> get_cost_center_list example_draft = Inr []
   \<and> list_all (\<lambda>e. e \<noteq> [] \<and> 44 \<notin> set e \<and> \<not> isspace (hd e) \<and> \<not> isspace (last e))
        [ascii ''a@b.c'', ascii ''d e@f.g'']
   \<and> get_recipient_list (set_recipient_list [ascii ''a@b.c'', ascii ''d e@f.g''] example_log)
       = [ascii ''a@b.c'', ascii ''d e@f.g'']"
  using text_field_round_trip
    [of "[12, - 3, 0]" example_draft "[ascii ''a@b.c'', ascii ''d e@f.g'']" example_log]
  by (simp add: example_draft_def ascii_def isspace_def)

section \<open>Email module: how the service extends the state\<close>

lemma grown_fields [simp]:
  "cost_centers (grown w ls vs ms) = cost_centers w"
  "cost_center_emails (grown w ls vs ms) = cost_center_emails w"
  "users (grown w ls vs ms) = users w"
  "templates (grown w ls vs ms) = templates w"
  "drafts (grown w ls vs ms) = drafts w"
  "default_from_email (grown w ls vs ms) = default_from_email w"
  "email_logs (grown w ls vs ms) = email_logs w @ ls"
  "recipient_views (grown w ls vs ms) = recipient_views w @ vs"
  "log_seq (grown w ls vs ms) = log_seq w + length ls"
  "view_seq (grown w ls vs ms) = view_seq w + length vs"
  "mail_attempts (grown w ls vs ms) = mail_attempts w @ ms"
  by (simp_all add: grown_def)

lemma grown_needs_rollback [simp]: "needs_rollback (grown t ls vs ms) = needs_rollback t"
  by (simp add: grown_def)

lemma grown_Nil [simp]: "grown w [] [] [] = w"
  by (simp add: grown_def)

lemma grown_extend [simp]:
  "grown (grown w ls vs ms) ls' vs' ms' = grown w (ls @ ls') (vs @ vs') (ms @ ms')"
  by (simp add: grown_def)

lemma get_emails_extend [simp]:
  "get_recipient_emails (grown w ls vs ms) c = get_recipient_emails w c"
  "get_cc_emails (grown w ls vs ms) c = get_cc_emails w c"
  by (simp_all add: get_recipient_emails_def get_cc_emails_def)

lemma recipient_users_extend [simp]:
  "recipient_users (grown w ls vs ms) c = recipient_users w c"
  by (simp add: recipient_users_def)

lemma begin_atomic_fields [simp]:
  "cost_centers (begin_atomic w) = cost_centers w"
  "cost_center_emails (begin_atomic w) = cost_center_emails w"
  "users (begin_atomic w) = users w"
  "templates (begin_atomic w) = templates w"
  "drafts (begin_atomic w) = drafts w"
  "default_from_email (begin_atomic w) = default_from_email w"
  "email_logs (begin_atomic w) = email_logs w"
  "recipient_views (begin_atomic w) = recipient_views w"
  "log_seq (begin_atomic w) = log_seq w"
  "view_seq (begin_atomic w) = view_seq w"
  "mail_attempts (begin_atomic w) = mail_attempts w"
  "needs_rollback (begin_atomic w) = False"
  by (simp_all add: begin_atomic_def world.defs tx.defs)

lemma begin_atomic_emails [simp]:
  "get_recipient_emails (begin_atomic w) c = get_recipient_emails w c"
  "get_cc_emails (begin_atomic w) c = get_cc_emails w c"
  "recipient_users (begin_atomic w) c = recipient_users w c"
  by (simp_all add: get_recipient_emails_def get_cc_emails_def recipient_users_def)

lemma commit_grown: "commit (grown (begin_atomic w) ls vs ms) = grown w ls vs ms"
  by (simp add: commit_def begin_atomic_def grown_def world.defs tx.defs)

lemma rollback_tables [simp]:
  "email_logs (rollback w t) = email_logs w"
  "recipient_views (rollback w t) = recipient_views w"
  by (simp_all add: rollback_def)

text \<open>
  The flag is never reset inside the block, and every error sets it or finds it set. So
  a transaction that is intact after a step was intact before it, and the step raised
  nothing.
\<close>

lemma EmailLog_create_ok:
  assumes "EmailLog_create db row t = (x, t')" and "\<not> needs_rollback t'"
  shows "\<not> needs_rollback t \<and> x = Inr (row\<lparr>log_id := log_seq t\<rparr>)
    \<and> t' = grown t [row\<lparr>log_id := log_seq t\<rparr>] [] []"
  using assms
  by (auto simp: EmailLog_create_def Let_def grown_def split: if_splits option.splits)

lemma EmailLog_create_accepts:
  assumes "\<forall>l. refuses_log db l = None" and "\<not> needs_rollback t"
  shows "\<not> needs_rollback (snd (EmailLog_create db row t))"
  using assms by (simp add: EmailLog_create_def Let_def)

lemma EmailRecipientView_create_ok:
  assumes "EmailRecipientView_create db l u b t = (x, t')" and "\<not> needs_rollback t'"
  shows "x = None \<and> \<not> needs_rollback t
    \<and> (\<exists>v. t' = grown t [] [v] [] \<and> email_log v = l \<and> recipient_user v = u \<and> is_to v = b
            \<and> fresh_row v)"
proof -
  let ?v = "\<lparr>view_id = view_seq t, email_log = l, recipient_user = u, is_to = b,
        is_read = False, read_at = None, is_starred = False, is_archived = False\<rparr>"
  from assms have a: "x = None" "\<not> needs_rollback t" "t' = grown t [] [?v] []"
    by (auto simp: EmailRecipientView_create_def Let_def grown_def split: if_splits option.splits)
  have "email_log ?v = l \<and> recipient_user ?v = u \<and> is_to ?v = b \<and> fresh_row ?v"
    by (simp add: fresh_row_def)
  with a show ?thesis by blast
qed

lemma EmailRecipientView_create_accepts:
  assumes "\<forall>v. refuses_view db v = None" and "\<not> needs_rollback t"
  shows "\<not> needs_rollback (snd (EmailRecipientView_create db l u b t))"
  using assms by (simp add: EmailRecipientView_create_def Let_def)

lemma create_to_rows_ok:
  assumes "create_to_rows db l us t = (x, t')" and "\<not> needs_rollback t'"
  shows "x = None \<and> \<not> needs_rollback t
    \<and> (\<exists>vs. t' = grown t [] vs [] \<and> map recipient_user vs = map user_id us
             \<and> list_all (\<lambda>v. email_log v = l \<and> fresh_row v) vs)"
  using assms
proof (induction us arbitrary: t)
  case Nil
  then have "x = None" "t' = t" by simp_all
  with Nil.prems(2) show ?case by (intro conjI exI [of _ "[]"]) simp_all
next
  case (Cons u us)
  obtain y t1 where step: "EmailRecipientView_create db l (user_id u) True t = (y, t1)"
    by fastforce
  show ?case
  proof (cases y)
    case (Some e)
    with Cons.prems(1) step have "t' = t1" by simp
    with Cons.prems(2) EmailRecipientView_create_ok [OF step] Some show ?thesis by simp
  next
    case None
    with Cons.prems(1) step have rest: "create_to_rows db l us t1 = (x, t')" by simp
    from Cons.IH [OF rest Cons.prems(2)] obtain vs where
      ih: "x = None" "\<not> needs_rollback t1" "t' = grown t1 [] vs []"
        "map recipient_user vs = map user_id us"
        "list_all (\<lambda>v. email_log v = l \<and> fresh_row v) vs"
      by blast
    from EmailRecipientView_create_ok [OF step ih(2)] obtain v where
      v: "\<not> needs_rollback t" "t1 = grown t [] [v] []" "email_log v = l"
        "recipient_user v = user_id u" "fresh_row v"
      by blast
    from ih v have "t' = grown t [] (v # vs) []"
      "map recipient_user (v # vs) = map user_id (u # us)"
      "list_all (\<lambda>v. email_log v = l \<and> fresh_row v) (v # vs)"
      by simp_all
    with ih(1) v(1) show ?thesis by blast
  qed
qed

lemma create_to_rows_accepts:
  assumes "\<forall>v. refuses_view db v = None" and "\<not> needs_rollback t"
  shows "\<not> needs_rollback (snd (create_to_rows db l us t))"
  using assms(2)
proof (induction us arbitrary: t)
  case Nil
  then show ?case by simp
next
  case (Cons u us)
  obtain y t1 where step: "EmailRecipientView_create db l (user_id u) True t = (y, t1)"
    by fastforce
  with EmailRecipientView_create_accepts [OF assms(1) Cons.prems, of l "user_id u" True]
  have t1: "\<not> needs_rollback t1" by simp
  show ?case
  proof (cases y)
    case (Some e)
    with step t1 show ?thesis by simp
  next
    case None
    with step Cons.IH [OF t1] show ?thesis by simp
  qed
qed

lemma create_cc_rows_ok:
  assumes "create_cc_rows db l us t = (x, t')" and "\<not> needs_rollback t'"
  shows "x = None \<and> \<not> needs_rollback t
    \<and> (\<exists>vs. t' = grown t [] vs []
          \<and> list_all (\<lambda>v. email_log v = l \<and> fresh_row v) vs
          \<and> distinct (map recipient_user vs)
          \<and> set (map recipient_user vs)
              = user_id ` set us - recipient_user ` {v \<in> set (recipient_views t). email_log v = l})"
  using assms
proof (induction us arbitrary: t)
  case Nil
  then have "x = None" "t' = t" by simp_all
  with Nil.prems(2) show ?case by (intro conjI exI [of _ "[]"]) simp_all
next
  case (Cons u us)
  let ?X = "\<lambda>t :: tx. recipient_user ` {v \<in> set (recipient_views t). email_log v = l}"
  have intact: "\<not> needs_rollback t"
    using Cons.prems by (auto split: if_splits)
  show ?case
  proof (cases "list_ex (\<lambda>v. email_log v = l \<and> recipient_user v = user_id u) (recipient_views t)")
    case True
    then have in_X: "user_id u \<in> ?X t" by (force simp: list_ex_iff)
    from Cons.prems(1) True intact have rest: "create_cc_rows db l us t = (x, t')" by simp
    from Cons.IH [OF rest Cons.prems(2)] obtain vs where
      vs: "x = None" "t' = grown t [] vs []"
        "list_all (\<lambda>v. email_log v = l \<and> fresh_row v) vs"
        "distinct (map recipient_user vs)"
        "set (map recipient_user vs) = user_id ` set us - ?X t"
      by blast
    from in_X vs(5) have "set (map recipient_user vs) = user_id ` set (u # us) - ?X t" by auto
    with vs(1-4) intact show ?thesis by blast
  next
    case False
    then have not_X: "user_id u \<notin> ?X t" by (force simp: list_ex_iff)
    obtain y t1 where step: "EmailRecipientView_create db l (user_id u) False t = (y, t1)"
      by fastforce
    show ?thesis
    proof (cases y)
      case (Some e)
      with Cons.prems(1) False intact step have "t' = t1" by simp
      with Cons.prems(2) EmailRecipientView_create_ok [OF step] Some show ?thesis by simp
    next
      case None
      with Cons.prems(1) False intact step have rest: "create_cc_rows db l us t1 = (x, t')"
        by simp
      from Cons.IH [OF rest Cons.prems(2)] obtain vs where
        vs: "x = None" "\<not> needs_rollback t1" "t' = grown t1 [] vs []"
          "list_all (\<lambda>v. email_log v = l \<and> fresh_row v) vs"
          "distinct (map recipient_user vs)"
          "set (map recipient_user vs) = user_id ` set us - ?X t1"
        by blast
      from EmailRecipientView_create_ok [OF step vs(2)] obtain v where
        v: "t1 = grown t [] [v] []" "email_log v = l" "recipient_user v = user_id u" "fresh_row v"
        by blast
      have "{x \<in> set (recipient_views t1). email_log x = l}
          = insert v {x \<in> set (recipient_views t). email_log x = l}"
        using v(1,2) by auto
      then have X: "?X t1 = insert (user_id u) (?X t)"
        using v(3) by simp
      from vs(6) X have notin: "user_id u \<notin> set (map recipient_user vs)" by auto
      from vs(6) X not_X have
        "set (map recipient_user (v # vs)) = user_id ` set (u # us) - ?X t"
        using v(3) by auto
      moreover from notin vs(5) v(3) have "distinct (map recipient_user (v # vs))" by simp
      moreover from vs(4) v(2,4) have "list_all (\<lambda>v. email_log v = l \<and> fresh_row v) (v # vs)"
        by simp
      moreover from vs(3) v(1) have "t' = grown t [] (v # vs) []" by simp
      ultimately show ?thesis using vs(1) intact by blast
    qed
  qed
qed

lemma create_cc_rows_accepts:
  assumes "\<forall>v. refuses_view db v = None" and "\<not> needs_rollback t"
  shows "\<not> needs_rollback (snd (create_cc_rows db l us t))"
  using assms(2)
proof (induction us arbitrary: t)
  case Nil
  then show ?case by simp
next
  case (Cons u us)
  obtain y t1 where step: "EmailRecipientView_create db l (user_id u) False t = (y, t1)"
    by fastforce
  with EmailRecipientView_create_accepts [OF assms(1) Cons.prems, of l "user_id u" False]
  have t1: "\<not> needs_rollback t1" by simp
  show ?case
  proof (cases "list_ex (\<lambda>v. email_log v = l \<and> recipient_user v = user_id u) (recipient_views t)")
    case True
    with Cons.prems Cons.IH [OF Cons.prems] show ?thesis by simp
  next
    case False
    show ?thesis
    proof (cases y)
      case (Some e)
      with step t1 False Cons.prems show ?thesis by simp
    next
      case None
      with step Cons.IH [OF t1] False Cons.prems show ?thesis by simp
    qed
  qed
qed

lemma create_recipient_tracking_ok:
  assumes run: "create_recipient_tracking db l to_emails cc_emails t = (x, t')"
    and intact: "\<not> needs_rollback t'"
  shows "x = None \<and> \<not> needs_rollback t
    \<and> (\<exists>vs. t' = grown t [] vs []
          \<and> list_all (\<lambda>v. email_log v = log_id l \<and> fresh_row v) vs
          \<and> (distinct (map user_id (users t))
               \<and> list_all (\<lambda>v. email_log v \<noteq> log_id l) (recipient_views t)
              \<longrightarrow> distinct (map recipient_user vs)
                  \<and> set (map recipient_user vs)
                      = user_id ` {u \<in> set (users t). user_email u \<in> set to_emails
                                                     \<or> user_email u \<in> set cc_emails}))"
proof -
  let ?to = "filter (\<lambda>u. user_email u \<in> set to_emails) (users t)"
  let ?cc = "if cc_emails \<noteq> [] then filter (\<lambda>u. user_email u \<in> set cc_emails) (users t) else []"
  from run intact have t0: "\<not> needs_rollback t"
    by (auto simp: create_recipient_tracking_def split: if_splits)
  obtain y t1 where to_rows: "create_to_rows db (log_id l) ?to t = (y, t1)" by fastforce
  have y: "y = None"
  proof (cases y)
    case (Some e)
    with run t0 to_rows have "t' = t1" by (simp add: create_recipient_tracking_def Let_def)
    with intact create_to_rows_ok [OF to_rows] Some show ?thesis by simp
  qed simp
  with run t0 to_rows have cc_rows: "create_cc_rows db (log_id l) ?cc t1 = (x, t')"
    by (simp add: create_recipient_tracking_def Let_def)
  from create_cc_rows_ok [OF cc_rows intact] obtain cs where
    cs: "x = None" "\<not> needs_rollback t1" "t' = grown t1 [] cs []"
      "list_all (\<lambda>v. email_log v = log_id l \<and> fresh_row v) cs"
      "distinct (map recipient_user cs)"
      "set (map recipient_user cs)
         = user_id ` set ?cc - recipient_user ` {v \<in> set (recipient_views t1). email_log v = log_id l}"
    by blast
  from create_to_rows_ok [OF to_rows cs(2)] obtain ts where
    ts: "t1 = grown t [] ts []" "map recipient_user ts = map user_id ?to"
      "list_all (\<lambda>v. email_log v = log_id l \<and> fresh_row v) ts"
    by blast
  have shape: "t' = grown t [] (ts @ cs) []" using cs(3) ts(1) by simp
  have fresh: "list_all (\<lambda>v. email_log v = log_id l \<and> fresh_row v) (ts @ cs)"
    using ts(3) cs(4) by simp
  have exact: "distinct (map recipient_user (ts @ cs))
      \<and> set (map recipient_user (ts @ cs))
          = user_id ` {u \<in> set (users t). user_email u \<in> set to_emails \<or> user_email u \<in> set cc_emails}"
    if ids: "distinct (map user_id (users t))"
      and new: "list_all (\<lambda>v. email_log v \<noteq> log_id l) (recipient_views t)"
  proof -
    have old: "{v \<in> set (recipient_views t). email_log v = log_id l} = {}"
      using new by (auto simp: list_all_iff)
    have "{v \<in> set (recipient_views t1). email_log v = log_id l} = set ts"
      using old ts(1,3) by (auto simp: list_all_iff)
    moreover have to_img: "recipient_user ` set ts = user_id ` set ?to"
      using arg_cong [OF ts(2), of set] by simp
    ultimately have X: "recipient_user ` {v \<in> set (recipient_views t1). email_log v = log_id l}
        = user_id ` set ?to"
      by simp
    have cc_set: "set ?cc = {u \<in> set (users t). user_email u \<in> set cc_emails}" by auto
    have d_to: "distinct (map recipient_user ts)"
      using ids ts(2) by (simp add: distinct_map_filter)
    have cs_set: "set (map recipient_user cs) = user_id ` set ?cc - user_id ` set ?to"
      using cs(6) X by simp
    have disj: "set (map recipient_user ts) \<inter> set (map recipient_user cs) = {}"
      unfolding cs_set using to_img by auto
    have "set (map recipient_user (ts @ cs))
        = user_id ` {u \<in> set (users t). user_email u \<in> set to_emails \<or> user_email u \<in> set cc_emails}"
    proof -
      have "set (map recipient_user (ts @ cs))
          = user_id ` set ?to \<union> (user_id ` set ?cc - user_id ` set ?to)"
        using to_img cs_set by simp
      also have "\<dots> = user_id ` (set ?to \<union> set ?cc)" by blast
      also have "set ?to \<union> set ?cc
          = {u \<in> set (users t). user_email u \<in> set to_emails \<or> user_email u \<in> set cc_emails}"
        unfolding cc_set by auto
      finally show ?thesis .
    qed
    moreover have "distinct (map recipient_user (ts @ cs))"
      using d_to cs(5) disj by simp
    ultimately show ?thesis by simp
  qed
  from cs(1) t0 shape fresh exact show ?thesis
    by (intro conjI exI [of _ "ts @ cs"]) blast+
qed

lemma create_recipient_tracking_accepts:
  assumes acc: "\<forall>v. refuses_view db v = None" and t0: "\<not> needs_rollback t"
  shows "\<not> needs_rollback (snd (create_recipient_tracking db l to_emails cc_emails t))"
proof -
  let ?to = "filter (\<lambda>u. user_email u \<in> set to_emails) (users t)"
  let ?cc = "if cc_emails \<noteq> [] then filter (\<lambda>u. user_email u \<in> set cc_emails) (users t) else []"
  obtain y t1 where to_rows: "create_to_rows db (log_id l) ?to t = (y, t1)" by fastforce
  with create_to_rows_accepts [OF acc t0, of "log_id l" ?to] have t1: "\<not> needs_rollback t1"
    by simp
  show ?thesis
  proof (cases y)
    case (Some e)
    with to_rows t0 t1 show ?thesis by (simp add: create_recipient_tracking_def Let_def)
  next
    case None
    with to_rows t0 create_cc_rows_accepts [OF acc t1, of "log_id l" ?cc] show ?thesis
      by (simp add: create_recipient_tracking_def Let_def)
  qed
qed

lemma send_actual_email_extend:
  "\<exists>m. send_actual_email mail subject body_html to_emails cc_emails from_email t
       = (mail (mail_attempts t) m, grown t [] [] [m])"
  by (intro exI [of _ "\<lparr>msg_subject = subject, msg_body = body_html, msg_from = from_email,
        msg_to = to_emails, msg_cc = cc_emails\<rparr>"])
    (simp add: send_actual_email_def Let_def grown_def)

lemma create_sent_log_ok:
  assumes "create_sent_log db user send_type subject body_html ccs template draft status err t
             = (x, t')"
    and "\<not> needs_rollback t'"
  shows "\<not> needs_rollback t
    \<and> (\<exists>l. x = Inr l \<and> t' = grown t [l] [] []
           \<and> log_id l = log_seq t \<and> log_email_type l = ''SENT'' \<and> log_cost_center l = None
           \<and> log_email_status l = status \<and> log_email_error l = err)"
proof -
  let ?row = "\<lparr>log_id = 0, log_user = Some (user_id user), log_cost_center = None,
       log_template = map_option template_id template, log_draft = map_option draft_id draft,
       log_send_type = send_type, log_email_type = ''SENT'',
       log_subject = subject, log_body_html = body_html,
       log_recipient_emails = py_join [44] (concat (map (get_recipient_emails t) ccs)),
       log_cc_emails = (if concat (map (get_cc_emails t) ccs) \<noteq> []
          then Some (py_join [44] (concat (map (get_cc_emails t) ccs))) else None),
       log_email_status = status, log_email_error = err\<rparr>"
  from assms(1) have "EmailLog_create db ?row t = (x, t')"
    by (simp add: create_sent_log_def Let_def)
  from EmailLog_create_ok [OF this assms(2)] show ?thesis by simp
qed

lemma create_sent_log_accepts:
  assumes "\<forall>l. refuses_log db l = None" and "\<not> needs_rollback t"
  shows "\<not> needs_rollback
    (snd (create_sent_log db user send_type subject body_html ccs template draft status err t))"
  using EmailLog_create_accepts [OF assms] by (simp add: create_sent_log_def Let_def)

lemma send_to_cost_center_code:
  "r_cost_center
     (fst (send_to_cost_center mail db user c send_type subject body_html template draft t))
   = cost_center_code c"
  by (simp add: send_to_cost_center_def raised_result_def Let_def
      split: prod.splits sum.splits option.splits)

text \<open>One visit of a cost center that leaves the transaction intact: nothing is written
  when it has no TO address; otherwise one message is attempted, one RECEIVED log is
  inserted, and tracking rows are inserted exactly when the message went out.\<close>

lemma send_to_cost_center_ok:
  assumes step: "send_to_cost_center mail db user c send_type subject body_html template draft t
                   = (r, t')"
    and intact: "\<not> needs_rollback t'"
  shows "\<not> needs_rollback t
    \<and> (if get_recipient_emails t c = [] then t' = t \<and> \<not> r_success r
        else \<exists>l vs m. t' = grown t [l] vs [m] \<and> log_id l = log_seq t
               \<and> log_email_type l = ''RECEIVED'' \<and> log_cost_center l = Some (cc_id c)
               \<and> log_email_status l = (if r_success r then ''SUCCESS'' else ''FAILED'')
               \<and> list_all (\<lambda>v. email_log v = log_seq t \<and> fresh_row v) vs
               \<and> (distinct (map user_id (users t))
                    \<and> list_all (\<lambda>v. email_log v < log_seq t) (recipient_views t)
                  \<longrightarrow> tracked t c l vs))"
proof -
  from step intact have t0: "\<not> needs_rollback t"
    by (auto simp: send_to_cost_center_def split: if_splits)
  show ?thesis
  proof (cases "get_recipient_emails t c = []")
    case True
    with step t0 show ?thesis by (auto simp: send_to_cost_center_def Let_def)
  next
    case False
    let ?to = "get_recipient_emails t c" and ?cc = "get_cc_emails t c"
    obtain m where m:
      "send_actual_email mail subject body_html ?to ?cc (default_from_email t) t
         = (mail (mail_attempts t) m, grown t [] [] [m])"
      using send_actual_email_extend by blast
    define sent where "sent = mail (mail_attempts t) m"
    define row where "row =
       \<lparr>log_id = 0, log_user = Some (user_id user), log_cost_center = Some (cc_id c),
         log_template = map_option template_id template, log_draft = map_option draft_id draft,
         log_send_type = send_type, log_email_type = ''RECEIVED'',
         log_subject = subject, log_body_html = body_html,
         log_recipient_emails = py_join [44] ?to,
         log_cc_emails = (if ?cc \<noteq> [] then Some (py_join [44] ?cc) else None),
         log_email_status = (if sent then ''SUCCESS'' else ''FAILED''),
         log_email_error = (if sent then None else Some ''Email sending failed'')\<rparr>"
    define l where "l = row\<lparr>log_id := log_seq t\<rparr>"
    have l_props: "log_id l = log_seq t" "log_email_type l = ''RECEIVED''"
      "log_cost_center l = Some (cc_id c)"
      "log_email_status l = (if sent then ''SUCCESS'' else ''FAILED'')"
      by (simp_all add: l_def row_def)
    obtain x t2 where create: "EmailLog_create db row (grown t [] [] [m]) = (x, t2)"
      by fastforce
    obtain y t3 where track:
      "(if sent then create_recipient_tracking db l ?to ?cc (grown t [l] [] [m])
        else (None, grown t [l] [] [m])) = (y, t3)"
      by fastforce
    have unfolded: "(r, t') =
        (case x of
           Inl e \<Rightarrow> (raised_result c e, t2)
         | Inr received_log \<Rightarrow>
             (case (if sent then create_recipient_tracking db received_log ?to ?cc t2
                    else (None, t2)) of
                (Some e, t3) \<Rightarrow> (raised_result c e, t3)
              | (None, t3) \<Rightarrow>
                  (\<lparr>r_success = sent, r_cost_center = cost_center_code c, r_error = None,
                    r_recipients_count = Some (int (length ?to)),
                    r_log_id = Some (log_id received_log)\<rparr>, t3)))"
      using step t0 False m create unfolding sent_def row_def
      by (simp add: send_to_cost_center_def Let_def)
    have t2_intact: "\<not> needs_rollback t2"
    proof (cases x)
      case (Inl e)
      with unfolded intact show ?thesis by simp
    next
      case (Inr received_log)
      show ?thesis
      proof (cases sent)
        case True
        obtain y' t3' where tr: "create_recipient_tracking db received_log ?to ?cc t2 = (y', t3')"
          by fastforce
        with unfolded Inr True have "t' = t3'" by (cases y') simp_all
        with intact create_recipient_tracking_ok [OF tr] show ?thesis by simp
      next
        case False
        with unfolded Inr intact show ?thesis by simp
      qed
    qed
    from EmailLog_create_ok [OF create t2_intact]
    have x: "x = Inr l" and t2: "t2 = grown t [l] [] [m]"
      by (simp_all add: l_def)
    have t3_eq: "(r, t') =
        (case y of
           Some e \<Rightarrow> (raised_result c e, t3)
         | None \<Rightarrow> (\<lparr>r_success = sent, r_cost_center = cost_center_code c, r_error = None,
                     r_recipients_count = Some (int (length ?to)),
                     r_log_id = Some (log_id l)\<rparr>, t3))"
    proof -
      have track2: "(if sent then create_recipient_tracking db l ?to ?cc t2 else (None, t2))
          = (y, t3)"
        using track unfolding t2 .
      show ?thesis using unfolded unfolding x sum.case track2 by (cases y) simp_all
    qed
    then have t3: "t' = t3" by (cases y) simp_all
    have y: "y = None" and t3_shape: "\<exists>vs. t3 = grown t [l] vs [m]
        \<and> list_all (\<lambda>v. email_log v = log_seq t \<and> fresh_row v) vs
        \<and> (distinct (map user_id (users t))
             \<and> list_all (\<lambda>v. email_log v < log_seq t) (recipient_views t)
            \<longrightarrow> tracked t c l vs)"
    proof -
      show "y = None"
      proof (cases sent)
        case True
        with track have tr: "create_recipient_tracking db l ?to ?cc (grown t [l] [] [m]) = (y, t3)"
          by simp
        from create_recipient_tracking_ok [OF tr] intact t3 show ?thesis by simp
      next
        case False
        with track show ?thesis by simp
      qed
      show "\<exists>vs. t3 = grown t [l] vs [m]
        \<and> list_all (\<lambda>v. email_log v = log_seq t \<and> fresh_row v) vs
        \<and> (distinct (map user_id (users t))
             \<and> list_all (\<lambda>v. email_log v < log_seq t) (recipient_views t)
            \<longrightarrow> tracked t c l vs)"
      proof (cases sent)
        case False
        with track have "t3 = grown t [l] [] [m]" by simp
        moreover have "tracked t c l []" using False l_props by (simp add: tracked_def)
        ultimately show ?thesis by (intro exI [of _ "[]"]) simp
      next
        case True
        with track have tr: "create_recipient_tracking db l ?to ?cc (grown t [l] [] [m]) = (y, t3)"
          by simp
        from create_recipient_tracking_ok [OF tr] intact t3 obtain vs where
          vs: "t3 = grown (grown t [l] [] [m]) [] vs []"
            "list_all (\<lambda>v. email_log v = log_id l \<and> fresh_row v) vs"
            "distinct (map user_id (users (grown t [l] [] [m])))
               \<and> list_all (\<lambda>v. email_log v \<noteq> log_id l) (recipient_views (grown t [l] [] [m]))
             \<longrightarrow> distinct (map recipient_user vs)
                \<and> set (map recipient_user vs)
                    = user_id ` {u \<in> set (users (grown t [l] [] [m])).
                                  user_email u \<in> set ?to \<or> user_email u \<in> set ?cc}"
          by auto
        have tr: "tracked t c l vs"
          if ids: "distinct (map user_id (users t))"
            and below: "list_all (\<lambda>v. email_log v < log_seq t) (recipient_views t)"
        proof -
          have "list_all (\<lambda>v. email_log v \<noteq> log_id l) (recipient_views (grown t [l] [] [m]))"
            using below l_props(1) by (auto simp: list_all_iff)
          with ids vs(3) have "distinct (map recipient_user vs)"
            "set (map recipient_user vs)
               = user_id ` {u \<in> set (users t). user_email u \<in> set ?to \<or> user_email u \<in> set ?cc}"
            by simp_all
          with vs(2) True l_props show ?thesis
            by (simp add: tracked_def recipient_users_def list_all_iff)
        qed
        from vs(2) l_props(1) have "list_all (\<lambda>v. email_log v = log_seq t \<and> fresh_row v) vs"
          by simp
        with vs(1) tr show ?thesis by (intro exI [of _ vs]) simp
      qed
    qed
    from t3_eq y have r: "r_success r = sent" by simp
    from t3_shape obtain vs where "t' = grown t [l] vs [m]"
      "list_all (\<lambda>v. email_log v = log_seq t \<and> fresh_row v) vs"
      "distinct (map user_id (users t))
         \<and> list_all (\<lambda>v. email_log v < log_seq t) (recipient_views t)
       \<longrightarrow> tracked t c l vs"
      using t3 by blast
    with l_props r have "\<exists>l vs m. t' = grown t [l] vs [m] \<and> log_id l = log_seq t
               \<and> log_email_type l = ''RECEIVED'' \<and> log_cost_center l = Some (cc_id c)
               \<and> log_email_status l = (if r_success r then ''SUCCESS'' else ''FAILED'')
               \<and> list_all (\<lambda>v. email_log v = log_seq t \<and> fresh_row v) vs
               \<and> (distinct (map user_id (users t))
                    \<and> list_all (\<lambda>v. email_log v < log_seq t) (recipient_views t)
                  \<longrightarrow> tracked t c l vs)"
      by (intro exI [of _ l] exI [of _ vs] exI [of _ m]) simp
    with False t0 show ?thesis by simp
  qed
qed

lemma send_to_cost_center_accepts:
  assumes accl: "\<forall>l. refuses_log db l = None" and accv: "\<forall>v. refuses_view db v = None"
    and t0: "\<not> needs_rollback t"
  shows "\<not> needs_rollback
    (snd (send_to_cost_center mail db user c send_type subject body_html template draft t))"
proof (cases "get_recipient_emails t c = []")
  case True
  with t0 show ?thesis by (simp add: send_to_cost_center_def Let_def)
next
  case False
  let ?to = "get_recipient_emails t c" and ?cc = "get_cc_emails t c"
  obtain m where m:
    "send_actual_email mail subject body_html ?to ?cc (default_from_email t) t
       = (mail (mail_attempts t) m, grown t [] [] [m])"
    using send_actual_email_extend by blast
  define row where "row =
       \<lparr>log_id = 0, log_user = Some (user_id user), log_cost_center = Some (cc_id c),
         log_template = map_option template_id template, log_draft = map_option draft_id draft,
         log_send_type = send_type, log_email_type = ''RECEIVED'',
         log_subject = subject, log_body_html = body_html,
         log_recipient_emails = py_join [44] ?to,
         log_cc_emails = (if ?cc \<noteq> [] then Some (py_join [44] ?cc) else None),
         log_email_status = (if mail (mail_attempts t) m then ''SUCCESS'' else ''FAILED''),
         log_email_error = (if mail (mail_attempts t) m then None
                            else Some ''Email sending failed'')\<rparr>"
  obtain x t2 where create: "EmailLog_create db row (grown t [] [] [m]) = (x, t2)"
    by fastforce
  from t0 have "\<not> needs_rollback (grown t [] [] [m])" by simp
  from EmailLog_create_accepts [OF accl this, of row] create
  have t2: "\<not> needs_rollback t2" by simp
  have "\<not> needs_rollback t3" if "create_recipient_tracking db l ?to ?cc t2 = (y, t3)" for l y t3
    using create_recipient_tracking_accepts [OF accv t2, of l ?to ?cc] that by simp
  with t0 False m create t2 show ?thesis
    by (auto simp: send_to_cost_center_def Let_def row_def
        split: sum.splits prod.splits option.splits)
qed

text \<open>One round of the loop: the visit of a cost center and, in the first round, the
  outbox entry.\<close>

lemma send_loop_Cons:
  assumes "send_to_cost_center mail db user c send_type subject body_html template draft t = (r, t1)"
  shows "send_loop mail db user send_type subject body_html template draft alls (c # rest) results sl t
    = (case sl of
         None \<Rightarrow>
           (case create_sent_log db user send_type subject body_html alls template draft
                   (if r_success r then ''SUCCESS'' else ''FAILED'') (r_error r) t1 of
              (Inl e, t2) \<Rightarrow> (Inl e, t2)
            | (Inr l, t2) \<Rightarrow>
                send_loop mail db user send_type subject body_html template draft alls rest
                  (results @ [r]) (Some l) t2)
       | Some l \<Rightarrow>
           send_loop mail db user send_type subject body_html template draft alls rest
             (results @ [r]) (Some l) t1)"
  using assms by (simp add: Let_def split: option.splits prod.splits)

lemma sent_received_simps [simp]:
  "sent_logs [] = []" "received_logs [] = []"
  "sent_logs (ls @ ls') = sent_logs ls @ sent_logs ls'"
  "received_logs (ls @ ls') = received_logs ls @ received_logs ls'"
  "log_email_type l = ''SENT'' \<Longrightarrow> sent_logs (l # ls) = l # sent_logs ls"
  "log_email_type l = ''SENT'' \<Longrightarrow> received_logs (l # ls) = received_logs ls"
  "log_email_type l = ''RECEIVED'' \<Longrightarrow> sent_logs (l # ls) = sent_logs ls"
  "log_email_type l = ''RECEIVED'' \<Longrightarrow> received_logs (l # ls) = l # received_logs ls"
  by (simp_all add: sent_logs_def received_logs_def)

text \<open>Whenever the loop ends, it has appended one result per cost center, in order.\<close>

lemma send_loop_results:
  assumes "send_loop mail db user send_type subject body_html template draft alls rest results sl t
             = (Inr (results', sl'), t')"
  shows "\<exists>rs. results' = results @ rs \<and> map r_cost_center rs = map cost_center_code rest"
  using assms
proof (induction rest arbitrary: results sl t)
  case Nil
  then show ?case by simp
next
  case (Cons c rest)
  obtain r t1 where step:
    "send_to_cost_center mail db user c send_type subject body_html template draft t = (r, t1)"
    by fastforce
  have code: "r_cost_center r = cost_center_code c"
    using send_to_cost_center_code [of mail db user c send_type subject body_html template draft t]
      step by simp
  obtain sl2 t2 where loop:
    "send_loop mail db user send_type subject body_html template draft alls rest
       (results @ [r]) sl2 t2 = (Inr (results', sl'), t')"
  proof (cases sl)
    case None
    obtain x t2 where sent: "create_sent_log db user send_type subject body_html alls template draft
        (if r_success r then ''SUCCESS'' else ''FAILED'') (r_error r) t1 = (x, t2)"
      by fastforce
    show ?thesis
    proof (cases x)
      case (Inl e)
      with Cons.prems sent None show ?thesis
        unfolding send_loop_Cons [OF step] by simp
    next
      case (Inr l)
      with Cons.prems sent None that [of "Some l" t2] show ?thesis
        unfolding send_loop_Cons [OF step] by simp
    qed
  next
    case (Some l)
    with Cons.prems that [of "Some l" t1] show ?thesis
      unfolding send_loop_Cons [OF step] by simp
  qed
  from Cons.IH [OF loop] obtain rs where
    "results' = (results @ [r]) @ rs" "map r_cost_center rs = map cost_center_code rest"
    by blast
  with code have "results' = results @ (r # rs)"
    "map r_cost_center (r # rs) = map cost_center_code (c # rest)"
    by simp_all
  then show ?case by blast
qed

text \<open>The logs of a loop that leaves the transaction intact.\<close>

lemma send_loop_logs:
  assumes "send_loop mail db user send_type subject body_html template draft alls rest results sl t
             = (x, t')"
    and "\<not> needs_rollback t'"
  shows "\<not> needs_rollback t
     \<and> (\<exists>ls vs ms rs sl'. x = Inr (results @ rs, sl') \<and> t' = grown t ls vs ms
          \<and> length (sent_logs ls) = (if sl = None \<and> rest \<noteq> [] then 1 else 0)
          \<and> list_all (\<lambda>l. log_cost_center l = None) (sent_logs ls)
          \<and> map log_cost_center (received_logs ls)
              = map (\<lambda>c. Some (cc_id c)) (filter (\<lambda>c. get_recipient_emails t c \<noteq> []) rest)
          \<and> (sl' = None \<longleftrightarrow> sl = None \<and> rest = []))"
  using assms
proof (induction rest arbitrary: results sl t)
  case Nil
  then have "x = Inr (results @ [], sl)" "t' = grown t [] [] []" by simp_all
  with Nil.prems(2) show ?case
    by (intro conjI exI [of _ "[]"] exI [of _ sl]) simp_all
next
  case (Cons c rest)
  note intact = Cons.prems(2)
  obtain r t1 where step:
    "send_to_cost_center mail db user c send_type subject body_html template draft t = (r, t1)"
    by fastforce
  obtain ls2 sl2 t2 where t2: "t2 = grown t1 ls2 [] []"
    and loop: "send_loop mail db user send_type subject body_html template draft alls rest
                 (results @ [r]) sl2 t2 = (x, t')"
    and ls2: "length (sent_logs ls2) = (if sl = None then 1 else 0)"
      "list_all (\<lambda>l. log_cost_center l = None) (sent_logs ls2)" "received_logs ls2 = []"
      "sl2 \<noteq> None"
  proof (cases sl)
    case None
    obtain y u where sent: "create_sent_log db user send_type subject body_html alls template draft
        (if r_success r then ''SUCCESS'' else ''FAILED'') (r_error r) t1 = (y, u)"
      by fastforce
    have u: "\<not> needs_rollback u"
    proof (cases y)
      case (Inl e)
      with Cons.prems(1) sent None have "t' = u"
        unfolding send_loop_Cons [OF step] by simp
      with intact show ?thesis by simp
    next
      case (Inr l)
      with Cons.prems(1) sent None have
        "send_loop mail db user send_type subject body_html template draft alls rest
           (results @ [r]) (Some l) u = (x, t')"
        unfolding send_loop_Cons [OF step] by simp
      from Cons.IH [OF this intact] show ?thesis by simp
    qed
    from create_sent_log_ok [OF sent u] obtain l where
      l: "y = Inr l" "u = grown t1 [l] [] []" "log_email_type l = ''SENT''"
        "log_cost_center l = None"
      by blast
    from Cons.prems(1) sent None l(1) have
      "send_loop mail db user send_type subject body_html template draft alls rest
         (results @ [r]) (Some l) u = (x, t')"
      unfolding send_loop_Cons [OF step] by simp
    with None l that [of u "[l]" "Some l"] show ?thesis by simp
  next
    case (Some l)
    from Cons.prems(1) have
      "send_loop mail db user send_type subject body_html template draft alls rest
         (results @ [r]) (Some l) t1 = (x, t')"
      unfolding send_loop_Cons [OF step] Some by simp
    with Some that [of t1 "[]" "Some l"] show ?thesis by simp
  qed
  from Cons.IH [OF loop intact] obtain ls vs ms rs sl' where
    t2_intact: "\<not> needs_rollback t2" and ih:
    "x = Inr ((results @ [r]) @ rs, sl')" "t' = grown t2 ls vs ms"
    "length (sent_logs ls) = (if sl2 = None \<and> rest \<noteq> [] then 1 else 0)"
    "list_all (\<lambda>l. log_cost_center l = None) (sent_logs ls)"
    "map log_cost_center (received_logs ls)
       = map (\<lambda>c. Some (cc_id c)) (filter (\<lambda>c. get_recipient_emails t2 c \<noteq> []) rest)"
    "sl' = None \<longleftrightarrow> sl2 = None \<and> rest = []"
    by blast
  from t2_intact t2 have t1_intact: "\<not> needs_rollback t1" by simp
  note st = send_to_cost_center_ok [OF step t1_intact]
  then have t_intact: "\<not> needs_rollback t" by simp
  obtain ls1 vs1 ms1 where t1: "t1 = grown t ls1 vs1 ms1"
    and ls1: "sent_logs ls1 = []"
      "map log_cost_center (received_logs ls1)
         = (if get_recipient_emails t c \<noteq> [] then [Some (cc_id c)] else [])"
  proof (cases "get_recipient_emails t c = []")
    case True
    with st have "t1 = t" by simp
    with True that [of "[]" "[]" "[]"] show ?thesis by simp
  next
    case False
    with st obtain l vs m where "t1 = grown t [l] vs [m]" "log_email_type l = ''RECEIVED''"
      "log_cost_center l = Some (cc_id c)" by auto
    with False that [of "[l]" vs "[m]"] show ?thesis by simp
  qed
  have "x = Inr (results @ (r # rs), sl')" using ih(1) by simp
  moreover have "t' = grown t (ls1 @ ls2 @ ls) (vs1 @ vs) (ms1 @ ms)"
    using ih(2) t2 t1 by simp
  moreover have "length (sent_logs (ls1 @ ls2 @ ls)) = (if sl = None \<and> c # rest \<noteq> [] then 1 else 0)"
    using ih(3) ls1(1) ls2(1,4) by simp
  moreover have "list_all (\<lambda>l. log_cost_center l = None) (sent_logs (ls1 @ ls2 @ ls))"
    using ih(4) ls1(1) ls2(2) by simp
  moreover have "map log_cost_center (received_logs (ls1 @ ls2 @ ls))
         = map (\<lambda>c. Some (cc_id c)) (filter (\<lambda>c. get_recipient_emails t c \<noteq> []) (c # rest))"
    using ih(5) ls1(2) ls2(3) t2 t1 by simp
  moreover have "sl' = None \<longleftrightarrow> sl = None \<and> c # rest = []"
    using ih(6) ls2(4) by simp
  ultimately show ?case using t_intact by blast
qed

text \<open>In a database that stores every row the loop leaves the transaction intact.\<close>

lemma send_loop_accepts:
  assumes accl: "\<forall>l. refuses_log db l = None" and accv: "\<forall>v. refuses_view db v = None"
    and "\<not> needs_rollback t"
  shows "\<not> needs_rollback
    (snd (send_loop mail db user send_type subject body_html template draft alls rest results sl t))"
  using assms(3)
proof (induction rest arbitrary: results sl t)
  case Nil
  then show ?case by simp
next
  case (Cons c rest)
  obtain r t1 where step:
    "send_to_cost_center mail db user c send_type subject body_html template draft t = (r, t1)"
    by fastforce
  with send_to_cost_center_accepts [OF accl accv Cons.prems,
      of mail user c send_type subject body_html template draft]
  have t1: "\<not> needs_rollback t1" by simp
  show ?case
  proof (cases sl)
    case None
    obtain y u where sent: "create_sent_log db user send_type subject body_html alls template draft
        (if r_success r then ''SUCCESS'' else ''FAILED'') (r_error r) t1 = (y, u)"
      by fastforce
    with create_sent_log_accepts [OF accl t1, of user send_type subject body_html alls template
        draft "if r_success r then ''SUCCESS'' else ''FAILED''" "r_error r"]
    have u: "\<not> needs_rollback u" by simp
    show ?thesis
    proof (cases y)
      case (Inl e)
      with sent None u show ?thesis unfolding send_loop_Cons [OF step] by simp
    next
      case (Inr l)
      with sent None Cons.IH [OF u] show ?thesis unfolding send_loop_Cons [OF step] by simp
    qed
  next
    case (Some l)
    with Cons.IH [OF t1] show ?thesis unfolding send_loop_Cons [OF step] by simp
  qed
qed

section \<open>Email module: what send_email returns and writes\<close>

lemma send_email_no_queryset:
  "target_cost_centers send_type ids w = Inl e \<Longrightarrow>
   send_email mail db user send_type subject body_html ids tid did w = (Failure e, w)"
  by (simp add: send_email_def)

lemma send_email_no_targets:
  "target_cost_centers send_type ids w = Inr [] \<Longrightarrow>
   send_email mail db user send_type subject body_html ids tid did w
     = (Failure ''No active cost centers found'', w)"
  by (simp add: send_email_def)

text \<open>Whatever failure is returned, the two tables are what they were: the validation
  returns have written nothing, and the error that left the loop has rolled the block
  back.\<close>

lemma send_email_Failure:
  assumes "send_email mail db user send_type subject body_html ids tid did w = (Failure e, w')"
  shows "email_logs w' = email_logs w \<and> recipient_views w' = recipient_views w"
  using assms
  by (auto simp: send_email_def Let_def end_atomic_def
      split: sum.splits if_splits prod.splits)

lemma send_email_Summary:
  assumes "send_email mail db user send_type subject body_html ids tid did w
             = (Summary s n f t d sl, w')"
  shows "\<exists>targets sl0 t'. target_cost_centers send_type ids w = Inr targets \<and> targets \<noteq> []
    \<and> send_loop mail db user send_type subject body_html (get_template tid w)
         (get_draft did user w) targets targets [] None (begin_atomic w) = (Inr (d, sl0), t')
    \<and> w' = end_atomic w t' False
    \<and> n = int (length (filter r_success d)) \<and> f = int (length d) - n \<and> t = int (length d)
    \<and> s = (n > 0) \<and> sl = map_option log_id sl0"
  using assms
  by (auto simp: send_email_def Let_def split: sum.splits if_splits prod.splits)

text \<open>With targets and a database that stores every row, the summary is returned and
  the block commits.\<close>

lemma send_email_accepted:
  assumes tg: "target_cost_centers send_type ids w = Inr targets" and ne: "targets \<noteq> []"
    and accl: "\<forall>l. refuses_log db l = None" and accv: "\<forall>v. refuses_view db v = None"
  shows "\<exists>s n f t d sl ls vs ms.
      send_email mail db user send_type subject body_html ids tid did w
        = (Summary s n f t d sl, grown w ls vs ms)"
proof -
  obtain x t' where loop:
    "send_loop mail db user send_type subject body_html (get_template tid w)
       (get_draft did user w) targets targets [] None (begin_atomic w) = (x, t')"
    by fastforce
  have "\<not> needs_rollback (begin_atomic w)" by simp
  from send_loop_accepts [OF accl accv this, of mail user send_type subject body_html
      "get_template tid w" "get_draft did user w" targets targets "[]" None] loop
  have intact: "\<not> needs_rollback t'" by simp
  from send_loop_logs [OF loop intact] obtain ls vs ms rs sl' where
    x: "x = Inr ([] @ rs, sl')" and t': "t' = grown (begin_atomic w) ls vs ms"
    by blast
  have "end_atomic w t' False = grown w ls vs ms"
    using intact t' by (simp add: end_atomic_def commit_grown)
  with tg ne loop x have "send_email mail db user send_type subject body_html ids tid did w
      = (Summary (0 < int (length (filter r_success rs))) (int (length (filter r_success rs)))
           (int (length rs) - int (length (filter r_success rs))) (int (length rs)) rs
           (map_option log_id sl'), grown w ls vs ms)"
    by (simp add: send_email_def Let_def)
  then show ?thesis by blast
qed

lemma created_logs_grown [simp]: "created_logs w (grown w ls vs ms) = ls"
  by (simp add: created_logs_def)

lemma created_logs_rollback [simp]: "created_logs w (rollback w t) = []"
  by (simp add: created_logs_def)

lemma target_cost_centers_active:
  assumes "target_cost_centers send_type ids w = Inr targets"
  shows "set targets \<subseteq> {c \<in> set (cost_centers w). cc_is_active c}"
  using assms by (auto simp: target_cost_centers_def split: if_splits)

text \<open>The logs of a send that returns the summary from a database that stores every
  row.\<close>

lemma send_email_Summary_accepted:
  assumes send: "send_email mail db user send_type subject body_html ids tid did w
                   = (Summary s n f t d sl, w')"
    and accl: "\<forall>l. refuses_log db l = None" and accv: "\<forall>v. refuses_view db v = None"
  shows "\<exists>targets ls vs ms. target_cost_centers send_type ids w = Inr targets \<and> targets \<noteq> []
    \<and> w' = grown w ls vs ms
    \<and> length (sent_logs ls) = 1
    \<and> list_all (\<lambda>l. log_cost_center l = None) (sent_logs ls)
    \<and> map log_cost_center (received_logs ls)
        = map (\<lambda>c. Some (cc_id c)) (filter (\<lambda>c. get_recipient_emails w c \<noteq> []) targets)"
proof -
  from send_email_Summary [OF send] obtain targets sl0 t' where
    tg: "target_cost_centers send_type ids w = Inr targets" "targets \<noteq> []"
    and loop: "send_loop mail db user send_type subject body_html (get_template tid w)
         (get_draft did user w) targets targets [] None (begin_atomic w) = (Inr (d, sl0), t')"
    and w': "w' = end_atomic w t' False"
    by blast
  have "\<not> needs_rollback (begin_atomic w)" by simp
  from send_loop_accepts [OF accl accv this, of mail user send_type subject body_html
      "get_template tid w" "get_draft did user w" targets targets "[]" None] loop
  have intact: "\<not> needs_rollback t'" by simp
  from send_loop_logs [OF loop intact] obtain ls vs ms where
    t': "t' = grown (begin_atomic w) ls vs ms"
    and ls: "length (sent_logs ls) = (if (None :: EmailLog option) = None \<and> targets \<noteq> [] then 1 else 0)"
      "list_all (\<lambda>l. log_cost_center l = None) (sent_logs ls)"
      "map log_cost_center (received_logs ls)
         = map (\<lambda>c. Some (cc_id c))
             (filter (\<lambda>c. get_recipient_emails (begin_atomic w) c \<noteq> []) targets)"
    by blast
  have "w' = grown w ls vs ms"
    using w' intact t' by (simp add: end_atomic_def commit_grown)
  with tg ls show ?thesis
    by (intro exI [of _ targets] exI [of _ ls] exI [of _ vs] exI [of _ ms]) simp
qed

text \<open>
  C1 (as stated): a send that targets two cost centers and returns success need not
  create two RECEIVED logs, nor any log at all. In the first example state CC-001 has a
  TO address and CC-002 has none; the announcement succeeds for CC-001, and only one
  RECEIVED log is created. In the second state both cost centers have a TO address and
  the database fails on the RECEIVED log of CC-002: the error is caught inside
  \<open>_send_to_cost_center\<close>, the summary reports success for CC-001, and the block, marked
  for rollback, keeps none of the logs.
\<close>

theorem send_email_received_logs_counterexample:
  "target_cost_centers ''ANNOUNCEMENT'' None example_world
     = Inr (take 2 (cost_centers example_world))
   \<and> success (fst announcement_accepted)
   \<and> length (received_logs (created_logs example_world (snd announcement_accepted))) = 1
   \<and> target_cost_centers ''ANNOUNCEMENT'' None example_world2
     = Inr (take 2 (cost_centers example_world2))
   \<and> map (get_recipient_emails example_world2) (take 2 (cost_centers example_world2))
     = [[ascii ''a@x.org''], [ascii ''c@x.org'']]
   \<and> success (fst announcement_half_stored)
   \<and> created_logs example_world2 (snd announcement_half_stored) = []"
  by code_simp

text \<open>
  C1 (amended): every call of \<open>send_email\<close> that targets N >= 1 cost centers and returns
  success, in a database that refuses none of the rows inserted, creates exactly one
  SENT log, with no cost center, and exactly one RECEIVED log for each targeted cost
  center that has at least one TO address, in the order of the cost centers; a targeted
  cost center without a TO address gets no RECEIVED log.

  The docstring of \<open>EmailLog\<close> speaks of one RECEIVED log per cost center, and the path
  of a refused mail does write its log, with status FAILED. Against that stands the
  guard of \<open>_send_to_cost_center\<close>: it is the first statement after the addresses are
  read, it returns a result with an error message of its own, and it comes before any
  mail is attempted, whereas the FAILED log records an attempt made to the recipients
  listed in its mandatory column \<open>recipient_emails\<close>. The guard is read as the design.
\<close>

theorem send_email_creates_logs:
  assumes "send_email mail db user send_type subject body_html ids tid did w = (res, w')"
    and "success res"
    and "\<forall>l. refuses_log db l = None" and "\<forall>v. refuses_view db v = None"
  shows "\<exists>targets. target_cost_centers send_type ids w = Inr targets \<and> targets \<noteq> []
    \<and> email_logs w' = email_logs w @ created_logs w w'
    \<and> length (sent_logs (created_logs w w')) = 1
    \<and> list_all (\<lambda>l. log_cost_center l = None) (sent_logs (created_logs w w'))
    \<and> map log_cost_center (received_logs (created_logs w w'))
        = map (\<lambda>c. Some (cc_id c)) (filter (\<lambda>c. get_recipient_emails w c \<noteq> []) targets)"
proof -
  from assms(2) obtain s n f t d sl where "res = Summary s n f t d sl" by (cases res) simp_all
  with assms(1) have
    "send_email mail db user send_type subject body_html ids tid did w = (Summary s n f t d sl, w')"
    by simp
  from send_email_Summary_accepted [OF this assms(3,4)] obtain targets ls vs ms where
    "target_cost_centers send_type ids w = Inr targets" "targets \<noteq> []"
    "w' = grown w ls vs ms" "length (sent_logs ls) = 1"
    "list_all (\<lambda>l. log_cost_center l = None) (sent_logs ls)"
    "map log_cost_center (received_logs ls)
       = map (\<lambda>c. Some (cc_id c)) (filter (\<lambda>c. get_recipient_emails w c \<noteq> []) targets)"
    by blast
  then show ?thesis by (intro exI [of _ targets]) simp
qed

theorem send_email_creates_logs_witness:
  "success (fst announcement_accepted)
   \<and> (\<forall>l. refuses_log permissive l = None) \<and> (\<forall>v. refuses_view permissive v = None)
   \<and> length (sent_logs (created_logs example_world (snd announcement_accepted))) = 1
   \<and> list_all (\<lambda>l. log_cost_center l = None)
        (sent_logs (created_logs example_world (snd announcement_accepted)))
   \<and> map log_cost_center (received_logs (created_logs example_world (snd announcement_accepted)))
       = [Some 1]"
proof -
  have s: "success (fst announcement_accepted)" by code_simp
  have accl: "\<forall>l. refuses_log permissive l = None"
    and accv: "\<forall>v. refuses_view permissive v = None"
    by (simp_all add: permissive_def)
  have "send_email accepting permissive sender ''ANNOUNCEMENT'' (ascii ''S'') (ascii ''B'') None
       None None example_world
     = (fst announcement_accepted, snd announcement_accepted)"
    by (simp add: announcement_accepted_def)
  from send_email_creates_logs [OF this s accl accv] obtain targets where
    t: "target_cost_centers ''ANNOUNCEMENT'' None example_world = Inr targets"
    and l: "length (sent_logs (created_logs example_world (snd announcement_accepted))) = 1"
      "list_all (\<lambda>l. log_cost_center l = None)
         (sent_logs (created_logs example_world (snd announcement_accepted)))"
      "map log_cost_center (received_logs (created_logs example_world (snd announcement_accepted)))
        = map (\<lambda>c. Some (cc_id c)) (filter (\<lambda>c. get_recipient_emails example_world c \<noteq> []) targets)"
    by blast
  have "target_cost_centers ''ANNOUNCEMENT'' None example_world
      = Inr (take 2 (cost_centers example_world))"
    by code_simp
  with t have "targets = take 2 (cost_centers example_world)" by simp
  moreover have "map (\<lambda>c. Some (cc_id c))
      (filter (\<lambda>c. get_recipient_emails example_world c \<noteq> []) (take 2 (cost_centers example_world)))
      = [Some 1]"
    by code_simp
  ultimately show ?thesis using s accl accv l by simp
qed

text \<open>
  C8 (as stated): a call that reaches the loop need not return counts. In the example
  state two cost centers are targeted and the database stores no log: the visit of
  CC-001 hands the message to the backend, the error of the insert is caught inside
  \<open>_send_to_cost_center\<close>, the query of \<open>_create_sent_log\<close> then raises in the marked
  transaction, and the outer \<open>except\<close> returns the error dict, which has no counts; no
  SENT log exists afterwards. And where the summary is returned with every cost center
  failed, the SENT log need not exist either: with a backend that refuses every message
  and a database that fails on the RECEIVED log of CC-002, the summary reports 0 of 2
  and the block, marked for rollback, keeps no log.
\<close>

theorem send_email_counts_counterexample:
  "target_cost_centers ''ANNOUNCEMENT'' None example_world
     = Inr (take 2 (cost_centers example_world))
   \<and> length (mail_attempts (snd announcement_not_stored)) = 1
   \<and> fst announcement_not_stored = Failure (str_db_error TransactionManagementError)
   \<and> sent_logs (created_logs example_world (snd announcement_not_stored)) = []
   \<and> fst announcement_refused_half_stored
       = Summary False 0 2 2 (details (fst announcement_refused_half_stored)) (Some 2)
   \<and> sent_logs (created_logs example_world2 (snd announcement_refused_half_stored)) = []"
  by code_simp

text \<open>
  C8 (amended): when \<open>send_email\<close> reaches the loop and returns the summary, the counts it
  returns add up, \<open>sent_count + failed_count = total_cost_centers\<close>, the total is the
  number of targeted cost centers, and \<open>success\<close> is true exactly when \<open>sent_count\<close> is
  positive; in a database that refuses none of the rows inserted one SENT log has been
  created whatever the flag says.
\<close>

theorem send_email_counts:
  assumes "send_email mail db user send_type subject body_html ids tid did w
             = (Summary s n f t d sl, w')"
  shows "\<exists>targets. target_cost_centers send_type ids w = Inr targets
    \<and> n + f = t \<and> t = int (length targets) \<and> (s \<longleftrightarrow> n > 0)
    \<and> n = int (length (filter r_success d)) \<and> length d = length targets
    \<and> ((\<forall>l. refuses_log db l = None) \<and> (\<forall>v. refuses_view db v = None)
        \<longrightarrow> length (sent_logs (created_logs w w')) = 1)"
proof -
  from send_email_Summary [OF assms] obtain targets sl0 t' where
    tg: "target_cost_centers send_type ids w = Inr targets" "targets \<noteq> []"
    and loop: "send_loop mail db user send_type subject body_html (get_template tid w)
         (get_draft did user w) targets targets [] None (begin_atomic w) = (Inr (d, sl0), t')"
    and c: "n = int (length (filter r_success d))" "f = int (length d) - n" "t = int (length d)"
      "s = (n > 0)"
    by blast
  from send_loop_results [OF loop] obtain rs where d: "d = [] @ rs"
    and rs: "map r_cost_center rs = map cost_center_code targets"
    by blast
  from rs have "length rs = length targets" by (rule map_eq_imp_length_eq)
  with d have len: "length d = length targets" by simp
  have "length (sent_logs (created_logs w w')) = 1"
    if "(\<forall>l. refuses_log db l = None) \<and> (\<forall>v. refuses_view db v = None)"
  proof -
    from that have accl: "\<forall>l. refuses_log db l = None" and accv: "\<forall>v. refuses_view db v = None"
      by simp_all
    from send_email_Summary_accepted [OF assms accl accv] obtain ls vs ms where
      "w' = grown w ls vs ms" "length (sent_logs ls) = 1"
      by blast
    then show ?thesis by simp
  qed
  with tg c len show ?thesis by (intro exI [of _ targets]) simp
qed

theorem send_email_counts_witness:
  "fst announcement_refused = Summary False 0 2 2 (details (fst announcement_refused)) (Some 2)
   \<and> target_cost_centers ''ANNOUNCEMENT'' None example_world = Inr (take 2 (cost_centers example_world))
   \<and> (\<forall>l. refuses_log permissive l = None) \<and> (\<forall>v. refuses_view permissive v = None)
   \<and> length (sent_logs (created_logs example_world (snd announcement_refused))) = 1"
proof -
  have r: "fst announcement_refused = Summary False 0 2 2 (details (fst announcement_refused)) (Some 2)"
    by code_simp
  have acc: "(\<forall>l. refuses_log permissive l = None) \<and> (\<forall>v. refuses_view permissive v = None)"
    by (simp add: permissive_def)
  have "send_email refusing permissive sender ''ANNOUNCEMENT'' (ascii ''S'') (ascii ''B'') None
       None None example_world
     = (fst announcement_refused, snd announcement_refused)"
    by (simp add: announcement_refused_def)
  with r have "send_email refusing permissive sender ''ANNOUNCEMENT'' (ascii ''S'') (ascii ''B'')
       None None None example_world
     = (Summary False 0 2 2 (details (fst announcement_refused)) (Some 2), snd announcement_refused)"
    by simp
  from send_email_counts [OF this] acc
  have "length (sent_logs (created_logs example_world (snd announcement_refused))) = 1"
    by blast
  moreover have "target_cost_centers ''ANNOUNCEMENT'' None example_world
      = Inr (take 2 (cost_centers example_world))"
    by code_simp
  ultimately show ?thesis using r acc by simp
qed

text \<open>
  C6: with send type 'ANNOUNCEMENT' the targeted cost centers are all active cost
  centers; with 'SPECIFIC' they are the active cost centers whose id is in
  \<open>cost_center_ids\<close>, and the call fails with 'Cost center IDs required for SPECIFIC send
  type' when the list is absent or empty; with any other send type the call fails with
  'Invalid send type'; when no cost center is targeted the call fails with 'No active
  cost centers found'. Otherwise the loop is entered: a summary that is returned lists
  exactly the targeted cost centers, one result each, in their order, and in a database
  that refuses none of the rows inserted the summary is returned.
\<close>

theorem send_email_addressing:
  "(send_type = ''ANNOUNCEMENT'' \<longrightarrow>
      target_cost_centers send_type ids w = Inr (filter cc_is_active (cost_centers w)))
   \<and> (send_type = ''SPECIFIC'' \<and> (ids = None \<or> ids = Some []) \<longrightarrow>
      fst (send_email mail db user send_type subject body_html ids tid did w)
        = Failure ''Cost center IDs required for SPECIFIC send type'')
   \<and> (send_type = ''SPECIFIC'' \<and> ids = Some xs \<and> xs \<noteq> [] \<longrightarrow>
      target_cost_centers send_type ids w
        = Inr (filter (\<lambda>c. cc_id c \<in> set xs \<and> cc_is_active c) (cost_centers w)))
   \<and> (send_type \<noteq> ''ANNOUNCEMENT'' \<and> send_type \<noteq> ''SPECIFIC'' \<longrightarrow>
      fst (send_email mail db user send_type subject body_html ids tid did w)
        = Failure ''Invalid send type'')
   \<and> (target_cost_centers send_type ids w = Inr [] \<longrightarrow>
      fst (send_email mail db user send_type subject body_html ids tid did w)
        = Failure ''No active cost centers found'')
   \<and> (target_cost_centers send_type ids w = Inr targets \<and> targets \<noteq> [] \<longrightarrow>
      (\<forall>s n f t d sl.
         fst (send_email mail db user send_type subject body_html ids tid did w) = Summary s n f t d sl
         \<longrightarrow> map r_cost_center d = map cost_center_code targets)
      \<and> ((\<forall>l. refuses_log db l = None) \<and> (\<forall>v. refuses_view db v = None) \<longrightarrow>
          (\<exists>s n f t d sl.
             fst (send_email mail db user send_type subject body_html ids tid did w)
               = Summary s n f t d sl)))"
proof (intro conjI impI allI)
  assume "send_type = ''ANNOUNCEMENT''"
  then show "target_cost_centers send_type ids w = Inr (filter cc_is_active (cost_centers w))"
    by (simp add: target_cost_centers_def)
next
  assume "send_type = ''SPECIFIC'' \<and> (ids = None \<or> ids = Some [])"
  then have "target_cost_centers send_type ids w
      = Inl ''Cost center IDs required for SPECIFIC send type''"
    by (auto simp: target_cost_centers_def)
  then show "fst (send_email mail db user send_type subject body_html ids tid did w)
        = Failure ''Cost center IDs required for SPECIFIC send type''"
    by (simp add: send_email_no_queryset)
next
  assume "send_type = ''SPECIFIC'' \<and> ids = Some xs \<and> xs \<noteq> []"
  then show "target_cost_centers send_type ids w
        = Inr (filter (\<lambda>c. cc_id c \<in> set xs \<and> cc_is_active c) (cost_centers w))"
    by (simp add: target_cost_centers_def)
next
  assume "send_type \<noteq> ''ANNOUNCEMENT'' \<and> send_type \<noteq> ''SPECIFIC''"
  then have "target_cost_centers send_type ids w = Inl ''Invalid send type''"
    by (simp add: target_cost_centers_def)
  then show "fst (send_email mail db user send_type subject body_html ids tid did w)
        = Failure ''Invalid send type''"
    by (simp add: send_email_no_queryset)
next
  assume "target_cost_centers send_type ids w = Inr []"
  then show "fst (send_email mail db user send_type subject body_html ids tid did w)
        = Failure ''No active cost centers found''"
    by (simp add: send_email_no_targets)
next
  fix s n f t d sl
  assume a: "target_cost_centers send_type ids w = Inr targets \<and> targets \<noteq> []"
    and r: "fst (send_email mail db user send_type subject body_html ids tid did w)
              = Summary s n f t d sl"
  obtain w' where
    eq: "send_email mail db user send_type subject body_html ids tid did w
           = (Summary s n f t d sl, w')"
    using r by (cases "send_email mail db user send_type subject body_html ids tid did w") simp
  from send_email_Summary [OF eq] a obtain sl0 t' where
    loop: "send_loop mail db user send_type subject body_html (get_template tid w)
         (get_draft did user w) targets targets [] None (begin_atomic w) = (Inr (d, sl0), t')"
    by auto
  from send_loop_results [OF loop] obtain rs where "d = [] @ rs"
    "map r_cost_center rs = map cost_center_code targets"
    by blast
  then show "map r_cost_center d = map cost_center_code targets" by simp
next
  assume a: "target_cost_centers send_type ids w = Inr targets \<and> targets \<noteq> []"
    and acc: "(\<forall>l. refuses_log db l = None) \<and> (\<forall>v. refuses_view db v = None)"
  from a have tg: "target_cost_centers send_type ids w = Inr targets" and ne: "targets \<noteq> []"
    by simp_all
  from acc have accl: "\<forall>l. refuses_log db l = None" and accv: "\<forall>v. refuses_view db v = None"
    by simp_all
  from send_email_accepted [OF tg ne accl accv, of mail user subject body_html tid did]
  obtain s n f t d sl w' where
    eq: "send_email mail db user send_type subject body_html ids tid did w
      = (Summary s n f t d sl, w')"
    by blast
  show "\<exists>s n f t d sl.
         fst (send_email mail db user send_type subject body_html ids tid did w) = Summary s n f t d sl"
    unfolding eq fst_conv by blast
qed

theorem send_email_addressing_witness:
  "target_cost_centers ''ANNOUNCEMENT'' None example_world = Inr (take 2 (cost_centers example_world))
   \<and> filter cc_is_active (cost_centers example_world) = take 2 (cost_centers example_world)
   \<and> fst (send_email accepting permissive sender ''SPECIFIC'' (ascii ''S'') (ascii ''B'') (Some [])
            None None example_world)
       = Failure ''Cost center IDs required for SPECIFIC send type''
   \<and> target_cost_centers ''SPECIFIC'' (Some [2, 3]) example_world
       = Inr [cost_centers example_world ! 1]
   \<and> fst send_of_unknown_type = Failure ''Invalid send type''
   \<and> fst send_to_inactive = Failure ''No active cost centers found''
   \<and> (\<forall>l. refuses_log permissive l = None) \<and> (\<forall>v. refuses_view permissive v = None)
   \<and> fst announcement_accepted = Summary True 1 1 2 (details (fst announcement_accepted)) (Some 2)
   \<and> map r_cost_center (details (fst announcement_accepted)) = [ascii ''CC-001'', ascii ''CC-002'']"
proof -
  have a: "filter cc_is_active (cost_centers example_world) = take 2 (cost_centers example_world)"
    by code_simp
  have b: "filter (\<lambda>c. cc_id c \<in> set [2, 3] \<and> cc_is_active c) (cost_centers example_world)
      = [cost_centers example_world ! 1]"
    by code_simp
  have c: "map cost_center_code (take 2 (cost_centers example_world))
      = [ascii ''CC-001'', ascii ''CC-002'']"
    by code_simp
  have acc: "(\<forall>l. refuses_log permissive l = None) \<and> (\<forall>v. refuses_view permissive v = None)"
    by (simp add: permissive_def)
  have r: "fst announcement_accepted = Summary True 1 1 2 (details (fst announcement_accepted)) (Some 2)"
    by code_simp
  note ann = send_email_addressing [of "''ANNOUNCEMENT''" None example_world accepting permissive
      sender "ascii ''S''" "ascii ''B''" None None "[]" "take 2 (cost_centers example_world)"]
  note empty = send_email_addressing [of "''SPECIFIC''" "Some []" example_world accepting permissive
      sender "ascii ''S''" "ascii ''B''" None None "[]" "[]"]
  note spec = send_email_addressing [of "''SPECIFIC''" "Some [2, 3]" example_world accepting
      permissive sender "ascii ''S''" "ascii ''B''" None None "[2, 3]" "[]"]
  note other = send_email_addressing [of "''BROADCAST''" "Some [1]" example_world accepting
      permissive sender "ascii ''S''" "ascii ''B''" None None "[1]" "[]"]
  have d: "target_cost_centers ''SPECIFIC'' (Some [3]) example_world = Inr []"
    by code_simp
  note inactive = send_email_addressing [of "''SPECIFIC''" "Some [3]" example_world accepting
      permissive sender "ascii ''S''" "ascii ''B''" None None "[3]" "[]"]
  from ann a have t: "target_cost_centers ''ANNOUNCEMENT'' None example_world
      = Inr (take 2 (cost_centers example_world))"
    by simp
  have ne: "take 2 (cost_centers example_world) \<noteq> []" by code_simp
  note visited = ann [THEN conjunct2, THEN conjunct2, THEN conjunct2, THEN conjunct2,
      THEN conjunct2, THEN mp, OF conjI [OF t ne], THEN conjunct1, rule_format,
      OF r [unfolded announcement_accepted_def]]
  then have "map r_cost_center (details (fst announcement_accepted))
      = map cost_center_code (take 2 (cost_centers example_world))"
    unfolding announcement_accepted_def .
  with c have "map r_cost_center (details (fst announcement_accepted))
      = [ascii ''CC-001'', ascii ''CC-002'']"
    by simp
  moreover from empty have "fst (send_email accepting permissive sender ''SPECIFIC'' (ascii ''S'')
      (ascii ''B'') (Some []) None None example_world)
      = Failure ''Cost center IDs required for SPECIFIC send type''"
    by simp
  moreover from spec b have "target_cost_centers ''SPECIFIC'' (Some [2, 3]) example_world
       = Inr [cost_centers example_world ! 1]"
    by simp
  moreover from other have "fst send_of_unknown_type = Failure ''Invalid send type''"
    unfolding send_of_unknown_type_def by simp
  moreover from inactive d have "fst send_to_inactive = Failure ''No active cost centers found''"
    unfolding send_to_inactive_def by simp
  ultimately show ?thesis using t a acc r by simp
qed

text \<open>
  C7: when \<open>send_email\<close> returns one of its validation failures (an invalid send type, no
  ids for a SPECIFIC send, or no active cost center found), the state is what it was
  before the call: no EmailLog row and no EmailRecipientView row has been created, and
  no message has been handed to the mail backend. Whatever failure the call returns,
  also the one of the outer \<open>except\<close> after the loop has written rows, the two tables are
  what they were before the call.
\<close>

theorem send_email_failure_unchanged:
  "(send_type \<noteq> ''ANNOUNCEMENT'' \<and> send_type \<noteq> ''SPECIFIC'' \<longrightarrow>
      send_email mail db user send_type subject body_html ids tid did w
        = (Failure ''Invalid send type'', w))
   \<and> (send_type = ''SPECIFIC'' \<and> (ids = None \<or> ids = Some []) \<longrightarrow>
      send_email mail db user send_type subject body_html ids tid did w
        = (Failure ''Cost center IDs required for SPECIFIC send type'', w))
   \<and> (target_cost_centers send_type ids w = Inr [] \<longrightarrow>
      send_email mail db user send_type subject body_html ids tid did w
        = (Failure ''No active cost centers found'', w))
   \<and> (\<forall>e w'. send_email mail db user send_type subject body_html ids tid did w = (Failure e, w')
        \<longrightarrow> email_logs w' = email_logs w \<and> recipient_views w' = recipient_views w
            \<and> created_logs w w' = [])"
proof (intro conjI impI allI)
  assume "send_type \<noteq> ''ANNOUNCEMENT'' \<and> send_type \<noteq> ''SPECIFIC''"
  then have "target_cost_centers send_type ids w = Inl ''Invalid send type''"
    by (simp add: target_cost_centers_def)
  then show "send_email mail db user send_type subject body_html ids tid did w
        = (Failure ''Invalid send type'', w)"
    by (rule send_email_no_queryset)
next
  assume "send_type = ''SPECIFIC'' \<and> (ids = None \<or> ids = Some [])"
  then have "target_cost_centers send_type ids w
      = Inl ''Cost center IDs required for SPECIFIC send type''"
    by (auto simp: target_cost_centers_def)
  then show "send_email mail db user send_type subject body_html ids tid did w
        = (Failure ''Cost center IDs required for SPECIFIC send type'', w)"
    by (rule send_email_no_queryset)
next
  assume "target_cost_centers send_type ids w = Inr []"
  then show "send_email mail db user send_type subject body_html ids tid did w
        = (Failure ''No active cost centers found'', w)"
    by (rule send_email_no_targets)
next
  fix e w'
  assume f: "send_email mail db user send_type subject body_html ids tid did w = (Failure e, w')"
  from send_email_Failure [OF f]
  show "email_logs w' = email_logs w" "recipient_views w' = recipient_views w"
    "created_logs w w' = []"
    by (simp_all add: created_logs_def)
qed

theorem send_email_failure_unchanged_witness:
  "send_of_unknown_type = (Failure ''Invalid send type'', example_world)
   \<and> send_email accepting permissive sender ''SPECIFIC'' (ascii ''S'') (ascii ''B'') None None None
        example_world
       = (Failure ''Cost center IDs required for SPECIFIC send type'', example_world)
   \<and> target_cost_centers ''SPECIFIC'' (Some [3]) example_world = Inr []
   \<and> send_to_inactive = (Failure ''No active cost centers found'', example_world)
   \<and> fst announcement_not_stored = Failure (str_db_error TransactionManagementError)
   \<and> length (mail_attempts (snd announcement_not_stored)) = 1
   \<and> email_logs (snd announcement_not_stored) = email_logs example_world
   \<and> recipient_views (snd announcement_not_stored) = recipient_views example_world
   \<and> created_logs example_world (snd announcement_not_stored) = []"
proof -
  note other = send_email_failure_unchanged [of "''BROADCAST''" accepting permissive sender
      "ascii ''S''" "ascii ''B''" "Some [1]" None None example_world]
  note none = send_email_failure_unchanged [of "''SPECIFIC''" accepting permissive sender
      "ascii ''S''" "ascii ''B''" None None None example_world]
  note inactive = send_email_failure_unchanged [of "''SPECIFIC''" accepting permissive sender
      "ascii ''S''" "ascii ''B''" "Some [3]" None None example_world]
  note stored = send_email_failure_unchanged [of "''ANNOUNCEMENT''" accepting storing_no_log sender
      "ascii ''S''" "ascii ''B''" None None None example_world]
  have d: "target_cost_centers ''SPECIFIC'' (Some [3]) example_world = Inr []"
    by code_simp
  have f: "fst announcement_not_stored = Failure (str_db_error TransactionManagementError)"
    and m: "length (mail_attempts (snd announcement_not_stored)) = 1"
    by code_simp+
  have "send_email accepting storing_no_log sender ''ANNOUNCEMENT'' (ascii ''S'') (ascii ''B'')
      None None None example_world
    = (Failure (str_db_error TransactionManagementError), snd announcement_not_stored)"
    using f unfolding announcement_not_stored_def by (simp add: prod_eq_iff)
  with stored have "email_logs (snd announcement_not_stored) = email_logs example_world
    \<and> recipient_views (snd announcement_not_stored) = recipient_views example_world
    \<and> created_logs example_world (snd announcement_not_stored) = []"
    by blast
  moreover from other have "send_of_unknown_type = (Failure ''Invalid send type'', example_world)"
    unfolding send_of_unknown_type_def by simp
  moreover from none have "send_email accepting permissive sender ''SPECIFIC'' (ascii ''S'')
      (ascii ''B'') None None None example_world
       = (Failure ''Cost center IDs required for SPECIFIC send type'', example_world)"
    by simp
  moreover from inactive d
  have "send_to_inactive = (Failure ''No active cost centers found'', example_world)"
    unfolding send_to_inactive_def by simp
  ultimately show ?thesis using d f m by simp
qed

section \<open>Email module: the tracking rows of a send\<close>

lemma tracked_grown [simp]: "tracked (grown w ls vs ms) c l rows = tracked w c l rows"
  by (simp add: tracked_def)

lemma tracked_begin_atomic [simp]: "tracked (begin_atomic w) c l rows = tracked w c l rows"
  by (simp add: tracked_def)

lemma tracked_distinct_pairs:
  assumes "tracked w c l vs"
  shows "distinct (map (\<lambda>v. (email_log v, recipient_user v)) vs)"
proof (cases "log_email_status l = ''SUCCESS''")
  case True
  with assms have "distinct (map recipient_user vs)" by (simp add: tracked_def)
  then have "distinct (map (snd \<circ> (\<lambda>v. (email_log v, recipient_user v))) vs)"
    by (simp add: comp_def)
  then show ?thesis by (metis distinct_map map_map)
next
  case False
  with assms show ?thesis by (simp add: tracked_def)
qed

text \<open>The visit of one cost center that leaves the transaction intact, as the loop sees
  it: at most one log, with the next key; its rows all point to that key and are as
  \<open>tracked\<close> asks.\<close>

lemma send_to_cost_center_tracking:
  assumes step: "send_to_cost_center mail db user c send_type subject body_html template draft t
                   = (r, t1)"
    and intact: "\<not> needs_rollback t1"
    and ids: "distinct (map user_id (users t))"
    and below: "list_all (\<lambda>v. email_log v < log_seq t) (recipient_views t)"
  shows "\<exists>ls vs ms. t1 = grown t ls vs ms
    \<and> (ls = [] \<longrightarrow> vs = [])
    \<and> list_all (\<lambda>l. log_id l = log_seq t \<and> log_email_type l = ''RECEIVED''
                    \<and> log_cost_center l = Some (cc_id c) \<and> tracked t c l vs) ls
    \<and> list_all (\<lambda>v. email_log v = log_seq t) vs
    \<and> distinct (map (\<lambda>v. (email_log v, recipient_user v)) vs)"
proof (cases "get_recipient_emails t c = []")
  case True
  with send_to_cost_center_ok [OF step intact] have "t1 = t" by simp
  then show ?thesis by (intro exI [of _ "[]"]) simp
next
  case False
  with send_to_cost_center_ok [OF step intact] ids below obtain l vs m where
    l: "t1 = grown t [l] vs [m]" "log_id l = log_seq t" "log_email_type l = ''RECEIVED''"
      "log_cost_center l = Some (cc_id c)"
      "list_all (\<lambda>v. email_log v = log_seq t \<and> fresh_row v) vs" "tracked t c l vs"
    by auto
  from l(5) have "list_all (\<lambda>v. email_log v = log_seq t) vs" by (simp add: list_all_iff)
  with l tracked_distinct_pairs [OF l(6)] show ?thesis
    by (intro exI [of _ "[l]"] exI [of _ vs] exI [of _ "[m]"]) simp
qed

lemma send_loop_tracking:
  assumes "send_loop mail db user send_type subject body_html template draft alls rest results sl t
             = (x, t')"
    and "\<not> needs_rollback t'"
    and "distinct (map user_id (users t))"
    and "list_all (\<lambda>v. email_log v < log_seq t) (recipient_views t)"
  shows "\<exists>ls vs ms. t' = grown t ls vs ms
     \<and> list_all (\<lambda>l. log_seq t \<le> log_id l) ls
     \<and> list_all (\<lambda>v. log_seq t \<le> email_log v \<and> email_log v < log_seq t + length ls) vs
     \<and> distinct (map (\<lambda>v. (email_log v, recipient_user v)) vs)
     \<and> list_all (\<lambda>l. list_ex (\<lambda>c. log_cost_center l = Some (cc_id c)
                          \<and> tracked t c l (filter (\<lambda>v. email_log v = log_id l) vs)) rest)
         (received_logs ls)"
  using assms
proof (induction rest arbitrary: results sl t)
  case Nil
  then have "t' = grown t [] [] []" by simp
  then show ?case by (intro exI [of _ "[]"]) simp
next
  case (Cons c rest)
  note intact = Cons.prems(2) and ids = Cons.prems(3) and below = Cons.prems(4)
  obtain r t1 where step:
    "send_to_cost_center mail db user c send_type subject body_html template draft t = (r, t1)"
    by fastforce
  obtain ls2 sl2 t2 where t2: "t2 = grown t1 ls2 [] []"
    and loop: "send_loop mail db user send_type subject body_html template draft alls rest
                 (results @ [r]) sl2 t2 = (x, t')"
    and ls2: "list_all (\<lambda>l. log_id l = log_seq t1) ls2" "received_logs ls2 = []"
  proof (cases sl)
    case None
    obtain y u where sent: "create_sent_log db user send_type subject body_html alls template draft
        (if r_success r then ''SUCCESS'' else ''FAILED'') (r_error r) t1 = (y, u)"
      by fastforce
    have u: "\<not> needs_rollback u"
    proof (cases y)
      case (Inl e)
      with Cons.prems(1) sent None have "t' = u"
        unfolding send_loop_Cons [OF step] by simp
      with intact show ?thesis by simp
    next
      case (Inr l)
      with Cons.prems(1) sent None have
        "send_loop mail db user send_type subject body_html template draft alls rest
           (results @ [r]) (Some l) u = (x, t')"
        unfolding send_loop_Cons [OF step] by simp
      from send_loop_logs [OF this intact] show ?thesis by simp
    qed
    from create_sent_log_ok [OF sent u] obtain l where
      l: "y = Inr l" "u = grown t1 [l] [] []" "log_id l = log_seq t1" "log_email_type l = ''SENT''"
      by blast
    from Cons.prems(1) sent None l(1) have
      "send_loop mail db user send_type subject body_html template draft alls rest
         (results @ [r]) (Some l) u = (x, t')"
      unfolding send_loop_Cons [OF step] by simp
    with l that [of u "[l]" "Some l"] show ?thesis by simp
  next
    case (Some l)
    from Cons.prems(1) have
      "send_loop mail db user send_type subject body_html template draft alls rest
         (results @ [r]) (Some l) t1 = (x, t')"
      unfolding send_loop_Cons [OF step] Some by simp
    with that [of t1 "[]" "Some l"] show ?thesis by simp
  qed
  from send_loop_logs [OF loop intact] have "\<not> needs_rollback t2" by simp
  with t2 have t1_intact: "\<not> needs_rollback t1" by simp
  from send_to_cost_center_tracking [OF step t1_intact ids below] obtain ls1 vs1 ms1 where
    t1: "t1 = grown t ls1 vs1 ms1"
    and empty1: "ls1 = [] \<longrightarrow> vs1 = []"
    and ls1: "list_all (\<lambda>l. log_id l = log_seq t \<and> log_email_type l = ''RECEIVED''
                    \<and> log_cost_center l = Some (cc_id c) \<and> tracked t c l vs1) ls1"
    and vs1: "list_all (\<lambda>v. email_log v = log_seq t) vs1"
    and d1: "distinct (map (\<lambda>v. (email_log v, recipient_user v)) vs1)"
    by blast
  have seq2: "log_seq t2 = log_seq t + length ls1 + length ls2"
    using t1 t2 by simp
  have ids2: "distinct (map user_id (users t2))"
    using ids t1 t2 by simp
  have below2: "list_all (\<lambda>v. email_log v < log_seq t2) (recipient_views t2)"
  proof -
    have "list_all (\<lambda>v. email_log v < log_seq t2) (recipient_views t)"
      using below seq2 by (auto simp: list_all_iff)
    moreover have "list_all (\<lambda>v. email_log v < log_seq t2) vs1"
    proof (cases "ls1 = []")
      case True
      with empty1 show ?thesis by simp
    next
      case False
      then have "0 < length ls1" by simp
      with vs1 seq2 show ?thesis by (auto simp: list_all_iff)
    qed
    ultimately show ?thesis using t1 t2 by simp
  qed
  from Cons.IH [OF loop intact ids2 below2] obtain ls vs ms where
    t': "t' = grown t2 ls vs ms"
    and ls: "list_all (\<lambda>l. log_seq t2 \<le> log_id l) ls"
    and vs: "list_all (\<lambda>v. log_seq t2 \<le> email_log v \<and> email_log v < log_seq t2 + length ls) vs"
    and d: "distinct (map (\<lambda>v. (email_log v, recipient_user v)) vs)"
    and tr: "list_all (\<lambda>l. list_ex (\<lambda>c. log_cost_center l = Some (cc_id c)
                          \<and> tracked t2 c l (filter (\<lambda>v. email_log v = log_id l) vs)) rest)
         (received_logs ls)"
    by blast
  have gap: "vs1 \<noteq> [] \<Longrightarrow> log_seq t < log_seq t2"
    using empty1 seq2 by (cases ls1) auto
  have vs1_filter: "filter (\<lambda>v. email_log v = log_id l) vs1 = []" if "log_seq t2 \<le> log_id l" for l
  proof (cases "vs1 = []")
    case True
    then show ?thesis by simp
  next
    case False
    from gap [OF False] that have "log_seq t < log_id l" by simp
    with vs1 show ?thesis by (auto simp: list_all_iff filter_empty_conv)
  qed
  have vs_filter: "filter (\<lambda>v. email_log v = log_seq t) vs = []" if "ls1 \<noteq> []"
  proof -
    from that have "log_seq t < log_seq t2" using seq2 by (cases ls1) auto
    with vs show ?thesis by (auto simp: list_all_iff filter_empty_conv)
  qed
  have "t' = grown t (ls1 @ ls2 @ ls) (vs1 @ vs) (ms1 @ ms)"
    using t' t2 t1 by simp
  moreover have "list_all (\<lambda>l. log_seq t \<le> log_id l) (ls1 @ ls2 @ ls)"
    using ls1 ls2(1) ls seq2 t1 by (auto simp: list_all_iff)
  moreover have "list_all (\<lambda>v. log_seq t \<le> email_log v
        \<and> email_log v < log_seq t + length (ls1 @ ls2 @ ls)) (vs1 @ vs)"
  proof -
    have "list_all (\<lambda>v. log_seq t \<le> email_log v
        \<and> email_log v < log_seq t + length (ls1 @ ls2 @ ls)) vs1"
    proof (cases "ls1 = []")
      case True
      with empty1 show ?thesis by simp
    next
      case False
      then have "0 < length ls1" by simp
      with vs1 show ?thesis by (auto simp: list_all_iff)
    qed
    moreover have "list_all (\<lambda>v. log_seq t \<le> email_log v
        \<and> email_log v < log_seq t + length (ls1 @ ls2 @ ls)) vs"
      using vs seq2 by (auto simp: list_all_iff)
    ultimately show ?thesis by simp
  qed
  moreover have "distinct (map (\<lambda>v. (email_log v, recipient_user v)) (vs1 @ vs))"
  proof -
    have "set (map (\<lambda>v. (email_log v, recipient_user v)) vs1)
        \<inter> set (map (\<lambda>v. (email_log v, recipient_user v)) vs) = {}"
    proof (cases "vs1 = []")
      case True
      then show ?thesis by simp
    next
      case False
      from gap [OF False] vs1 vs show ?thesis by (fastforce simp: list_all_iff)
    qed
    with d1 d show ?thesis by simp
  qed
  moreover have "list_all (\<lambda>l. list_ex (\<lambda>c. log_cost_center l = Some (cc_id c)
                    \<and> tracked t c l (filter (\<lambda>v. email_log v = log_id l) (vs1 @ vs))) (c # rest))
         (received_logs (ls1 @ ls2 @ ls))"
  proof -
    have a: "list_all (\<lambda>l. list_ex (\<lambda>c. log_cost_center l = Some (cc_id c)
                    \<and> tracked t c l (filter (\<lambda>v. email_log v = log_id l) (vs1 @ vs))) (c # rest))
         (received_logs ls1)"
    proof (cases "ls1 = []")
      case True
      then show ?thesis by simp
    next
      case False
      have "filter (\<lambda>v. email_log v = log_seq t) vs1 = vs1"
        using vs1 by (simp add: list_all_iff)
      with vs_filter [OF False] ls1 show ?thesis
        by (auto simp: list_all_iff received_logs_def)
    qed
    have b: "list_all (\<lambda>l. list_ex (\<lambda>c. log_cost_center l = Some (cc_id c)
                    \<and> tracked t c l (filter (\<lambda>v. email_log v = log_id l) (vs1 @ vs))) (c # rest))
         (received_logs ls)"
      unfolding list_all_iff
    proof
      fix l
      assume l: "l \<in> set (received_logs ls)"
      then have "l \<in> set ls" by (simp add: received_logs_def)
      with ls have "log_seq t2 \<le> log_id l" by (simp add: list_all_iff)
      then have f: "filter (\<lambda>v. email_log v = log_id l) (vs1 @ vs)
          = filter (\<lambda>v. email_log v = log_id l) vs"
        by (simp add: vs1_filter)
      from tr l have "list_ex (\<lambda>c. log_cost_center l = Some (cc_id c)
            \<and> tracked t2 c l (filter (\<lambda>v. email_log v = log_id l) vs)) rest"
        by (simp add: list_all_iff)
      then show "list_ex (\<lambda>c. log_cost_center l = Some (cc_id c)
            \<and> tracked t c l (filter (\<lambda>v. email_log v = log_id l) (vs1 @ vs))) (c # rest)"
        unfolding f using t1 t2 by (auto simp: list_ex_iff)
    qed
    from a b ls2(2) show ?thesis by simp
  qed
  ultimately show ?case by blast
qed

text \<open>
  C2 (as stated): a RECEIVED log does not always come with tracking rows. In the example
  state users 1 and 2 are recipient users of CC-001; when the mail backend refuses the
  message the announcement still creates the RECEIVED log of CC-001, with status FAILED,
  and no tracking row at all.
\<close>

theorem send_email_tracking_counterexample:
  "map log_cost_center (received_logs (created_logs example_world (snd announcement_refused)))
     = [Some 1]
   \<and> map log_email_status (received_logs (created_logs example_world (snd announcement_refused)))
     = [''FAILED'']
   \<and> map user_id (recipient_users example_world (hd (cost_centers example_world))) = [1, 2]
   \<and> recipient_views (snd announcement_refused) = []"
  by code_simp

text \<open>
  C2 (amended): in a database where user keys are distinct and every tracking row points
  to a log key already given out, a send produces for each RECEIVED log it creates, which
  belongs to an active cost center, exactly one tracking row per recipient user of that
  cost center (a user whose email is among its TO or CC addresses), unread, not starred
  and not archived, when the log's status is SUCCESS, and no row when the mail was not
  sent; and the table keeps at most one row per pair of log and recipient user, also for
  a user listed both as TO and as CC.
\<close>

theorem send_email_tracking:
  assumes send: "send_email mail db user send_type subject body_html ids tid did w = (res, w')"
    and ids: "distinct (map user_id (users w))"
    and below: "list_all (\<lambda>v. email_log v < log_seq w) (recipient_views w)"
    and unique: "distinct (map (\<lambda>v. (email_log v, recipient_user v)) (recipient_views w))"
  shows "list_all (\<lambda>l. list_ex (\<lambda>c. cc_is_active c \<and> log_cost_center l = Some (cc_id c)
                            \<and> tracked w c l (tracking_rows w' l)) (cost_centers w))
           (received_logs (created_logs w w'))
    \<and> distinct (map (\<lambda>v. (email_log v, recipient_user v)) (recipient_views w'))"
proof -
  have restored: ?thesis
    if "email_logs w' = email_logs w" "recipient_views w' = recipient_views w"
    using that unique by (simp add: created_logs_def)
  show ?thesis
  proof (cases res)
    case (Failure e)
    with send send_email_Failure [of mail db user send_type subject body_html ids tid did w e w']
    show ?thesis by (intro restored) simp_all
  next
    case (Summary s n f t d sl)
    with send_email_Summary [of mail db user send_type subject body_html ids tid did w s n f t d sl w']
      send obtain targets sl0 t' where
      tg: "target_cost_centers send_type ids w = Inr targets"
      and loop: "send_loop mail db user send_type subject body_html (get_template tid w)
           (get_draft did user w) targets targets [] None (begin_atomic w) = (Inr (d, sl0), t')"
      and fin: "w' = end_atomic w t' False"
      by blast
    show ?thesis
    proof (cases "needs_rollback t'")
      case True
      with fin have "w' = rollback w t'" by (simp add: end_atomic_def)
      then show ?thesis by (intro restored) simp_all
    next
      case False
      have ids0: "distinct (map user_id (users (begin_atomic w)))" using ids by simp
      have below0: "list_all (\<lambda>v. email_log v < log_seq (begin_atomic w))
          (recipient_views (begin_atomic w))"
        using below by simp
      from send_loop_tracking [OF loop False ids0 below0] obtain ls vs ms where
        t': "t' = grown (begin_atomic w) ls vs ms"
        and ls: "list_all (\<lambda>l. log_seq w \<le> log_id l) ls"
        and vs: "list_all (\<lambda>v. log_seq w \<le> email_log v \<and> email_log v < log_seq w + length ls) vs"
        and d: "distinct (map (\<lambda>v. (email_log v, recipient_user v)) vs)"
        and tr: "list_all (\<lambda>l. list_ex (\<lambda>c. log_cost_center l = Some (cc_id c)
                              \<and> tracked w c l (filter (\<lambda>v. email_log v = log_id l) vs)) targets)
             (received_logs ls)"
        by auto
      have w': "w' = grown w ls vs ms"
        using fin False t' by (simp add: end_atomic_def commit_grown)
      have rows: "tracking_rows w' l = filter (\<lambda>v. email_log v = log_id l) vs"
        if "l \<in> set ls" for l
      proof -
        from that ls have "log_seq w \<le> log_id l" by (simp add: list_all_iff)
        with below have "filter (\<lambda>v. email_log v = log_id l) (recipient_views w) = []"
          by (auto simp: list_all_iff filter_empty_conv)
        then show ?thesis by (simp add: tracking_rows_def w')
      qed
      have "list_all (\<lambda>l. list_ex (\<lambda>c. cc_is_active c \<and> log_cost_center l = Some (cc_id c)
                                \<and> tracked w c l (tracking_rows w' l)) (cost_centers w))
               (received_logs ls)"
        unfolding list_all_iff
      proof
        fix l
        assume l: "l \<in> set (received_logs ls)"
        then have "l \<in> set ls" by (simp add: received_logs_def)
        note r = rows [OF this]
        from tr l obtain c where "c \<in> set targets" "log_cost_center l = Some (cc_id c)"
          "tracked w c l (filter (\<lambda>v. email_log v = log_id l) vs)"
          by (auto simp: list_all_iff list_ex_iff)
        with target_cost_centers_active [OF tg] r
        show "list_ex (\<lambda>c. cc_is_active c \<and> log_cost_center l = Some (cc_id c)
                                \<and> tracked w c l (tracking_rows w' l)) (cost_centers w)"
          by (auto simp: list_ex_iff)
      qed
      moreover have "distinct (map (\<lambda>v. (email_log v, recipient_user v)) (recipient_views w'))"
      proof -
        have "set (map (\<lambda>v. (email_log v, recipient_user v)) (recipient_views w))
            \<inter> set (map (\<lambda>v. (email_log v, recipient_user v)) vs) = {}"
          using below vs by (fastforce simp: list_all_iff)
        with unique d show ?thesis by (simp add: w')
      qed
      ultimately show ?thesis by (simp add: w')
    qed
  qed
qed

theorem send_email_tracking_witness:
  "distinct (map user_id (users example_world))
   \<and> fst announcement_accepted = Summary True 1 1 2 (details (fst announcement_accepted)) (Some 2)
   \<and> map (\<lambda>v. (email_log v, recipient_user v, is_to v, is_read v))
        (recipient_views (snd announcement_accepted))
       = [(1, 1, True, False), (1, 2, False, False)]
   \<and> map user_id (recipient_users example_world (hd (cost_centers example_world))) = [1, 2]
   \<and> list_all (\<lambda>l. list_ex (\<lambda>c. cc_is_active c \<and> log_cost_center l = Some (cc_id c)
                            \<and> tracked example_world c l (tracking_rows (snd announcement_accepted) l))
                    (cost_centers example_world))
        (received_logs (created_logs example_world (snd announcement_accepted)))
   \<and> distinct (map (\<lambda>v. (email_log v, recipient_user v))
        (recipient_views (snd announcement_accepted)))"
proof -
  have ids: "distinct (map user_id (users example_world))" by code_simp
  have below: "list_all (\<lambda>v. email_log v < log_seq example_world) (recipient_views example_world)"
    by code_simp
  have unique: "distinct (map (\<lambda>v. (email_log v, recipient_user v)) (recipient_views example_world))"
    by code_simp
  have send: "send_email accepting permissive sender ''ANNOUNCEMENT'' (ascii ''S'') (ascii ''B'')
       None None None example_world = (fst announcement_accepted, snd announcement_accepted)"
    by (simp add: announcement_accepted_def)
  have r: "fst announcement_accepted = Summary True 1 1 2 (details (fst announcement_accepted)) (Some 2)"
    by code_simp
  have rows: "map (\<lambda>v. (email_log v, recipient_user v, is_to v, is_read v))
        (recipient_views (snd announcement_accepted))
       = [(1, 1, True, False), (1, 2, False, False)]"
    by code_simp
  have users: "map user_id (recipient_users example_world (hd (cost_centers example_world))) = [1, 2]"
    by code_simp
  from send_email_tracking [OF send ids below unique] ids r rows users show ?thesis by simp
qed

end
